theory Spec2Isabelle
  imports Complex_Main "HOL-Library.Sublist"
begin

section \<open>Common values\<close>

text \<open>A thrown JavaScript \<^verbatim>\<open>Error\<close>, carrying its message.\<close>

datatype error = Error string

text \<open>
  JavaScript's \<^verbatim>\<open>a % b\<close> on integers: the remainder takes the sign of the dividend
  (negative zero is the integer zero here).
\<close>

definition js_rem :: "int \<Rightarrow> int \<Rightarrow> int" where
  "js_rem a b = sgn a * (\<bar>a\<bar> mod \<bar>b\<bar>)"

text \<open>Reading \<^verbatim>\<open>xs[i]\<close>: outside the array JavaScript yields \<^verbatim>\<open>undefined\<close>, here \<open>None\<close>.\<close>

definition js_index :: "'a list \<Rightarrow> int \<Rightarrow> 'a option" where
  "js_index xs i = (if 0 \<le> i \<and> i < int (length xs) then Some (xs ! nat i) else None)"

section \<open>The weighted round-robin read-replica selector (lib/db)\<close>

definition REPLICA_WEIGHTS :: "int list" where
  "REPLICA_WEIGHTS = [4, 6]"

text \<open>The module state: \<^verbatim>\<open>let currentIndex = -1; let currentWeight = 0;\<close>\<close>

record selector_state =
  currentIndex :: int
  currentWeight :: int

definition initial_selector :: selector_state where
  "initial_selector = \<lparr>currentIndex = - 1, currentWeight = 0\<rparr>"

text \<open>\<^verbatim>\<open>const gcd = (a, b) => (b === 0 ? a : gcd(b, a % b))\<close>\<close>

function gcd_js :: "int \<Rightarrow> int \<Rightarrow> int" where
  "gcd_js a b = (if b = 0 then a else gcd_js b (js_rem a b))"
  by pat_completeness auto
termination
proof (relation "measure (\<lambda>(a, b). nat \<bar>b\<bar>)")
  show "wf (measure (\<lambda>(a, b). nat \<bar>b\<bar>))" by simp
next
  fix a b :: int
  assume "b \<noteq> 0"
  then have "\<bar>a\<bar> mod \<bar>b\<bar> < \<bar>b\<bar>" by simp
  moreover from \<open>b \<noteq> 0\<close> have "\<bar>js_rem a b\<bar> = \<bar>a\<bar> mod \<bar>b\<bar>"
    by (cases "a = 0") (simp_all add: js_rem_def abs_mult abs_sgn_eq)
  ultimately show "((b, js_rem a b), (a, b)) \<in> measure (\<lambda>(a, b). nat \<bar>b\<bar>)"
    by simp
qed

text \<open>
  \<^verbatim>\<open>Math.max(...REPLICA_WEIGHTS)\<close> and \<^verbatim>\<open>REPLICA_WEIGHTS.reduce(gcd)\<close>: both fold the
  array from its first element.
\<close>

definition MAX_WEIGHT :: int where
  "MAX_WEIGHT = foldl max (hd REPLICA_WEIGHTS) (tl REPLICA_WEIGHTS)"

definition WEIGHT_GCD :: int where
  "WEIGHT_GCD = foldl gcd_js (hd REPLICA_WEIGHTS) (tl REPLICA_WEIGHTS)"

text \<open>
  One pass through the body of the \<^verbatim>\<open>while (true)\<close> loop, up to its test: the index
  advances modulo the number of replicas, and each time it comes back to 0 the current
  weight drops by the gcd, starting again from the maximum once it is used up.
\<close>

definition select_step :: "nat \<Rightarrow> selector_state \<Rightarrow> selector_state" where
  "select_step n s =
     (let i = js_rem (currentIndex s + 1) (int n);
          w = (if i = 0
               then (if currentWeight s - WEIGHT_GCD \<le> 0 then MAX_WEIGHT
                     else currentWeight s - WEIGHT_GCD)
               else currentWeight s)
      in \<lparr>currentIndex = i, currentWeight = w\<rparr>)"

text \<open>
  The loop's exit test \<^verbatim>\<open>weights[currentIndex] >= currentWeight\<close>; comparing
  \<^verbatim>\<open>undefined\<close> (an index outside \<^verbatim>\<open>weights\<close>) is false.
\<close>

definition select_hit :: "int list \<Rightarrow> selector_state \<Rightarrow> bool" where
  "select_hit weights s =
     (case js_index weights (currentIndex s) of
        None \<Rightarrow> False
      | Some w \<Rightarrow> w \<ge> currentWeight s)"

text \<open>The \<^verbatim>\<open>while (true)\<close> loop; \<open>None\<close> is the loop that never returns.\<close>

partial_function (option) select_loop ::
  "int list \<Rightarrow> nat \<Rightarrow> selector_state \<Rightarrow> selector_state option" where
  "select_loop weights n s =
     (if select_hit weights (select_step n s) then Some (select_step n s)
      else select_loop weights n (select_step n s))"

text \<open>
  \<^verbatim>\<open>selectReplica(replicas)\<close>: the value returned or the error thrown, with the module
  state after the call; \<open>None\<close> when the call does not return.
\<close>

definition selectReplica ::
  "selector_state \<Rightarrow> 'a list \<Rightarrow> ((error + 'a option) \<times> selector_state) option" where
  "selectReplica s replicas =
     (if length replicas = 0 then Some (Inl (Error ''No replicas configured''), s)
      else
        (case select_loop (take (length replicas) REPLICA_WEIGHTS) (length replicas) s of
           None \<Rightarrow> None
         | Some s' \<Rightarrow> Some (Inr (js_index replicas (currentIndex s')), s')))"

text \<open>The two read replicas handed to \<^verbatim>\<open>withReplicas\<close>, and \<^verbatim>\<open>getReadReplica\<close>.\<close>

datatype replica_client = dbread1 | dbread2

definition db_replicas :: "replica_client list" where
  "db_replicas = [dbread1, dbread2]"

definition getReadReplica ::
  "selector_state \<Rightarrow> ((error + replica_client option) \<times> selector_state) option" where
  "getReadReplica s = selectReplica s db_replicas"

text \<open>
  \<open>k\<close> successive calls of \<^verbatim>\<open>selectReplica\<close> on the same list, each starting from the
  state the previous one left: the outcomes in call order and the final state.
\<close>

fun select_calls ::
  "nat \<Rightarrow> selector_state \<Rightarrow> 'a list \<Rightarrow> ((error + 'a option) list \<times> selector_state) option" where
  "select_calls 0 s replicas = Some ([], s)"
| "select_calls (Suc k) s replicas =
     (case selectReplica s replicas of
        None \<Rightarrow> None
      | Some (r, s') \<Rightarrow>
          (case select_calls k s' replicas of
             None \<Rightarrow> None
           | Some (rs, s'') \<Rightarrow> Some (r # rs, s'')))"

text \<open>
  The states the module can be in: the initial one and those a call leaves behind. The
  index is - 1 only before the first call; the weight runs through 6, 4, 2.
\<close>

definition selector_inv :: "selector_state \<Rightarrow> bool" where
  "selector_inv s =
     (currentIndex s \<in> {- 1, 0, 1} \<and> currentWeight s \<in> {0, 2, 4, 6})"

text \<open>The outcomes of one full cycle of five calls on the list \<open>[a, b]\<close>.\<close>

definition cycle5 :: "'a \<Rightarrow> 'a \<Rightarrow> (error + 'a option) list" where
  "cycle5 a b = [Inr (Some b), Inr (Some a), Inr (Some b), Inr (Some a), Inr (Some b)]"

section \<open>Strings\<close>

text \<open>
  Strings are sequences of ASCII characters. \<^verbatim>\<open>toLowerCase\<close> maps the capital letters
  to the small ones and leaves every other character alone.
\<close>

definition lower_char :: "char \<Rightarrow> char" where
  "lower_char c =
     (case map_of (zip ''ABCDEFGHIJKLMNOPQRSTUVWXYZ'' ''abcdefghijklmnopqrstuvwxyz'') c of
        Some d \<Rightarrow> d
      | None \<Rightarrow> c)"

definition toLowerCase :: "string \<Rightarrow> string" where
  "toLowerCase s = map lower_char s"

text \<open>\<^verbatim>\<open>s.split(c)\<close> for a one-character separator: never empty, a part between any two
  separators.\<close>

fun js_split :: "char \<Rightarrow> string \<Rightarrow> string list" where
  "js_split c [] = [[]]"
| "js_split c (x # xs) =
     (if x = c then [] # js_split c xs
      else (case js_split c xs of
              [] \<Rightarrow> [[x]]
            | p # ps \<Rightarrow> (x # p) # ps))"

text \<open>\<^verbatim>\<open>s.endsWith(p)\<close>\<close>

definition endsWith :: "string \<Rightarrow> string \<Rightarrow> bool" where
  "endsWith s p = (length p \<le> length s \<and> drop (length s - length p) s = p)"

section \<open>Sessions and the database (lib/auth, lib/db/schema)\<close>

text \<open>
  What \<^verbatim>\<open>auth.api.getSession\<close> resolves to: \<^verbatim>\<open>null\<close>, or a session whose user, when
  there is one, has an id. \<^verbatim>\<open>session?.user?.id\<close> is falsy when any of the three is
  missing or the id is the empty string.
\<close>

datatype session = Session (session_user: "string option")

definition session_user_id :: "session option \<Rightarrow> string option" where
  "session_user_id session =
     (case session of
        None \<Rightarrow> None
      | Some (Session None) \<Rightarrow> None
      | Some (Session (Some uid)) \<Rightarrow> (if uid = [] then None else Some uid))"

text \<open>
  The rows of the \<^verbatim>\<open>user\<close> and \<^verbatim>\<open>subscription\<close> tables, with the columns the queries
  below select and the migration declares. A date is its time in milliseconds, a nullable
  column an option.
\<close>

record user_row =
  u_id :: string
  u_email :: string
  u_emailVerified :: bool
  u_name :: "string option"
  u_image :: "string option"
  u_stripeCustomerId :: "string option"
  u_createdAt :: int
  u_updatedAt :: int

record subscription_row =
  s_id :: string
  s_plan :: string
  s_referenceId :: string
  s_status :: "string option"
  s_periodStart :: "int option"
  s_periodEnd :: "int option"
  s_cancelAtPeriodEnd :: "bool option"
  s_cancelAt :: "int option"
  s_canceledAt :: "int option"
  s_endedAt :: "int option"

record database =
  users :: "user_row list"
  subscriptions :: "subscription_row list"

text \<open>
  The query of \<^verbatim>\<open>getComprehensiveProStatus\<close>:
  \<^verbatim>\<open>select().from(subscription).where(eq(subscription.referenceId, userId))\<close>.
\<close>

definition select_subscriptions :: "database \<Rightarrow> string \<Rightarrow> subscription_row list" where
  "select_subscriptions db userId = filter (\<lambda>s. s_referenceId s = userId) (subscriptions db)"

text \<open>
  What one request meets outside the module: the outcome of \<^verbatim>\<open>getSession\<close>, the
  outcome of reading from the replica (the tables, or a thrown error), and the clock at
  the first, second and third time the request reads it. Which replica answers is the
  selector's business; the functions below depend on the outcome of the read only.
\<close>

record request_env =
  getSession :: "error + session option"
  readDb :: "error + database"
  now1 :: int
  now2 :: int
  now3 :: int

section \<open>Pro status from subscriptions (lib/subscription.ts)\<close>

datatype pro_source = Source_stripe | Source_none

record pro_status =
  ps_isProUser :: bool
  ps_source :: pro_source

definition getComprehensiveProStatus :: "error + database \<Rightarrow> string \<Rightarrow> pro_status" where
  "getComprehensiveProStatus read userId =
     (case read of
        Inl e \<Rightarrow> \<lparr>ps_isProUser = False, ps_source = Source_none\<rparr>
      | Inr db \<Rightarrow>
          (let userSubscriptions = select_subscriptions db userId;
               activeSubscription = find (\<lambda>sub. s_status sub = Some ''active'') userSubscriptions
           in case activeSubscription of
                Some sub \<Rightarrow> \<lparr>ps_isProUser = True, ps_source = Source_stripe\<rparr>
              | None \<Rightarrow> \<lparr>ps_isProUser = False, ps_source = Source_none\<rparr>))"

definition isUserSubscribed :: "request_env \<Rightarrow> bool" where
  "isUserSubscribed env =
     (case getSession env of
        Inl e \<Rightarrow> False
      | Inr session \<Rightarrow>
          (case session_user_id session of
             None \<Rightarrow> False
           | Some userId \<Rightarrow> ps_isProUser (getComprehensiveProStatus (readDb env) userId)))"

section \<open>The user data cache (lib/user-data-server)\<close>

datatype subscription_status = Status_active | Status_canceled | Status_expired | Status_none

text \<open>The \<^verbatim>\<open>stripeSubscription\<close> object built from a joined row; its values are the
  row's, so a column that was \<^verbatim>\<open>null\<close> stays \<open>None\<close>.\<close>

record stripe_subscription =
  ss_id :: "string option"
  ss_plan :: "string option"
  ss_status :: "string option"
  ss_periodStart :: "int option"
  ss_periodEnd :: "int option"
  ss_cancelAtPeriodEnd :: bool
  ss_cancelAt :: "int option"
  ss_canceledAt :: "int option"
  ss_endedAt :: "int option"

record ComprehensiveUserData =
  cud_id :: string
  cud_email :: string
  cud_emailVerified :: bool
  cud_name :: string
  cud_image :: "string option"
  cud_stripeCustomerId :: "string option"
  cud_createdAt :: int
  cud_updatedAt :: int
  isProUser :: bool
  subscriptionStatus :: subscription_status
  stripeSubscription :: "stripe_subscription option"

record LightweightUserAuth =
  lw_userId :: string
  lw_email :: string
  lw_isProUser :: bool

record user_data_entry =
  ude_data :: ComprehensiveUserData
  ude_expiresAt :: int

record lightweight_entry =
  lwe_data :: LightweightUserAuth
  lwe_expiresAt :: int

text \<open>The two module-level maps the functions below read and write.\<close>

record user_caches =
  userDataCache :: "string \<rightharpoonup> user_data_entry"
  lightweightAuthCache :: "string \<rightharpoonup> lightweight_entry"

definition CACHE_TTL_MS :: int where
  "CACHE_TTL_MS = 5 * 60 * 1000"

definition LIGHTWEIGHT_CACHE_TTL_MS :: int where
  "LIGHTWEIGHT_CACHE_TTL_MS = 2 * 60 * 1000"

text \<open>\<^verbatim>\<open>getCachedUserData(userId)\<close> at clock reading \<open>now\<close>: the value returned
  (\<open>None\<close> is \<^verbatim>\<open>null\<close>) and the caches afterwards.\<close>

definition getCachedUserData ::
  "user_caches \<Rightarrow> int \<Rightarrow> string \<Rightarrow> ComprehensiveUserData option \<times> user_caches" where
  "getCachedUserData c now userId =
     (case userDataCache c userId of
        Some cached \<Rightarrow>
          (if ude_expiresAt cached > now then (Some (ude_data cached), c)
           else (None, c\<lparr>userDataCache := (userDataCache c)(userId := None)\<rparr>))
      | None \<Rightarrow> (None, c))"

definition setCachedUserData ::
  "user_caches \<Rightarrow> int \<Rightarrow> string \<Rightarrow> ComprehensiveUserData \<Rightarrow> user_caches" where
  "setCachedUserData c now userId data =
     c\<lparr>userDataCache := (userDataCache c)(userId \<mapsto>
          \<lparr>ude_data = data, ude_expiresAt = now + CACHE_TTL_MS\<rparr>)\<rparr>"

definition clearUserDataCache :: "user_caches \<Rightarrow> string \<Rightarrow> user_caches" where
  "clearUserDataCache c userId =
     c\<lparr>userDataCache := (userDataCache c)(userId := None),
       lightweightAuthCache := (lightweightAuthCache c)(userId := None)\<rparr>"

definition getCachedLightweightAuth ::
  "user_caches \<Rightarrow> int \<Rightarrow> string \<Rightarrow> LightweightUserAuth option \<times> user_caches" where
  "getCachedLightweightAuth c now userId =
     (case lightweightAuthCache c userId of
        Some cached \<Rightarrow>
          (if lwe_expiresAt cached > now then (Some (lwe_data cached), c)
           else (None, c\<lparr>lightweightAuthCache := (lightweightAuthCache c)(userId := None)\<rparr>))
      | None \<Rightarrow> (None, c))"

definition setCachedLightweightAuth ::
  "user_caches \<Rightarrow> int \<Rightarrow> string \<Rightarrow> LightweightUserAuth \<Rightarrow> user_caches" where
  "setCachedLightweightAuth c now userId data =
     c\<lparr>lightweightAuthCache := (lightweightAuthCache c)(userId \<mapsto>
          \<lparr>lwe_data = data, lwe_expiresAt = now + LIGHTWEIGHT_CACHE_TTL_MS\<rparr>)\<rparr>"

text \<open>
  The rows the two JOIN queries select:
  \<^verbatim>\<open>from(user).leftJoin(subscription, eq(subscription.referenceId, user.id)).where(eq(user.id, userId))\<close>.
  A user without subscriptions gives one row whose subscription columns are \<^verbatim>\<open>null\<close>.
\<close>

record user_subscription_row =
  row_userId :: string
  row_email :: string
  row_emailVerified :: bool
  row_name :: "string option"
  row_image :: "string option"
  row_stripeCustomerId :: "string option"
  row_userCreatedAt :: int
  row_userUpdatedAt :: int
  row_subscriptionId :: "string option"
  row_subscriptionPlan :: "string option"
  row_subscriptionStatus :: "string option"
  row_subscriptionPeriodStart :: "int option"
  row_subscriptionPeriodEnd :: "int option"
  row_subscriptionCancelAtPeriodEnd :: "bool option"
  row_subscriptionCancelAt :: "int option"
  row_subscriptionCanceledAt :: "int option"
  row_subscriptionEndedAt :: "int option"

definition joined_row :: "user_row \<Rightarrow> subscription_row option \<Rightarrow> user_subscription_row" where
  "joined_row u sub =
     \<lparr>row_userId = u_id u, row_email = u_email u, row_emailVerified = u_emailVerified u,
      row_name = u_name u, row_image = u_image u, row_stripeCustomerId = u_stripeCustomerId u,
      row_userCreatedAt = u_createdAt u, row_userUpdatedAt = u_updatedAt u,
      row_subscriptionId = map_option s_id sub,
      row_subscriptionPlan = map_option s_plan sub,
      row_subscriptionStatus = Option.bind sub s_status,
      row_subscriptionPeriodStart = Option.bind sub s_periodStart,
      row_subscriptionPeriodEnd = Option.bind sub s_periodEnd,
      row_subscriptionCancelAtPeriodEnd = Option.bind sub s_cancelAtPeriodEnd,
      row_subscriptionCancelAt = Option.bind sub s_cancelAt,
      row_subscriptionCanceledAt = Option.bind sub s_canceledAt,
      row_subscriptionEndedAt = Option.bind sub s_endedAt\<rparr>"

definition left_join_subscriptions :: "database \<Rightarrow> user_row \<Rightarrow> subscription_row option list" where
  "left_join_subscriptions db u =
     (case filter (\<lambda>s. s_referenceId s = u_id u) (subscriptions db) of
        [] \<Rightarrow> [None]
      | sub # subs \<Rightarrow> map Some (sub # subs))"

definition select_user_with_subscriptions ::
  "database \<Rightarrow> string \<Rightarrow> user_subscription_row list" where
  "select_user_with_subscriptions db userId =
     concat (map (\<lambda>u. map (joined_row u) (left_join_subscriptions db u))
                 (filter (\<lambda>u. u_id u = userId) (users db)))"

record auth_row =
  ar_userId :: string
  ar_email :: string
  ar_subscriptionStatus :: "string option"
  ar_subscriptionEnd :: "int option"

definition select_auth_rows :: "database \<Rightarrow> string \<Rightarrow> auth_row list" where
  "select_auth_rows db userId =
     concat (map (\<lambda>u. map (\<lambda>sub. \<lparr>ar_userId = u_id u, ar_email = u_email u,
                                   ar_subscriptionStatus = Option.bind sub s_status,
                                   ar_subscriptionEnd = Option.bind sub s_periodEnd\<rparr>)
                          (left_join_subscriptions db u))
                 (filter (\<lambda>u. u_id u = userId) (users db)))"

text \<open>\<^verbatim>\<open>new Date(d).getTime()\<close> for a date column: \<^verbatim>\<open>new Date(null)\<close> is the epoch.\<close>

definition date_time :: "int option \<Rightarrow> int" where
  "date_time d = (case d of None \<Rightarrow> 0 | Some t \<Rightarrow> t)"

text \<open>
  \<^verbatim>\<open>subs.sort((a, b) => new Date(b.periodEnd).getTime() - new Date(a.periodEnd).getTime())\<close>:
  \<^verbatim>\<open>Array.prototype.sort\<close> is stable, so this is the stable sort by decreasing period end.
\<close>

definition sort_by_periodEnd_desc :: "stripe_subscription list \<Rightarrow> stripe_subscription list" where
  "sort_by_periodEnd_desc subs = sort_key (\<lambda>sub. - date_time (ss_periodEnd sub)) subs"

text \<open>\<^verbatim>\<open>xs[0]\<close>\<close>

definition first_elem :: "'a list \<Rightarrow> 'a option" where
  "first_elem xs = (case xs of [] \<Rightarrow> None | x # _ \<Rightarrow> Some x)"

definition stripeSubscriptions_of :: "user_subscription_row list \<Rightarrow> stripe_subscription list" where
  "stripeSubscriptions_of userWithSubscriptions =
     map (\<lambda>row. \<lparr>ss_id = row_subscriptionId row,
                  ss_plan = row_subscriptionPlan row,
                  ss_status = row_subscriptionStatus row,
                  ss_periodStart = row_subscriptionPeriodStart row,
                  ss_periodEnd = row_subscriptionPeriodEnd row,
                  ss_cancelAtPeriodEnd =
                    (case row_subscriptionCancelAtPeriodEnd row of None \<Rightarrow> False | Some b \<Rightarrow> b),
                  ss_cancelAt = row_subscriptionCancelAt row,
                  ss_canceledAt = row_subscriptionCanceledAt row,
                  ss_endedAt = row_subscriptionEndedAt row\<rparr>)
         (filter (\<lambda>row. row_subscriptionId row \<noteq> None) userWithSubscriptions)"

definition activeStripeSubscription_of :: "stripe_subscription list \<Rightarrow> stripe_subscription option" where
  "activeStripeSubscription_of stripeSubscriptions =
     first_elem (sort_by_periodEnd_desc
       (filter (\<lambda>sub. ss_status sub = Some ''active'') stripeSubscriptions))"

text \<open>The status when there is no active subscription; \<open>now\<close> is \<^verbatim>\<open>new Date()\<close>.\<close>

definition inactive_status :: "stripe_subscription list \<Rightarrow> int \<Rightarrow> subscription_status" where
  "inactive_status stripeSubscriptions now =
     (case first_elem (sort_by_periodEnd_desc stripeSubscriptions) of
        None \<Rightarrow> Status_none
      | Some latestStripeSubscription \<Rightarrow>
          (let isExpired = date_time (ss_periodEnd latestStripeSubscription) < now;
               isCanceled = (ss_status latestStripeSubscription = Some ''canceled'')
           in if isCanceled then Status_canceled
              else if isExpired then Status_expired
              else Status_none))"

text \<open>\<^verbatim>\<open>userData.name || userData.email.split('@')[0]\<close>\<close>

definition name_or_email_prefix :: "string option \<Rightarrow> string \<Rightarrow> string" where
  "name_or_email_prefix n e =
     (case n of
        Some (c # cs) \<Rightarrow> c # cs
      | _ \<Rightarrow> (case js_split CHR ''@'' e of [] \<Rightarrow> [] | p # ps \<Rightarrow> p))"

text \<open>The object \<^verbatim>\<open>getComprehensiveUserData\<close> builds from a non-empty query result.\<close>

definition comprehensive_data ::
  "user_subscription_row \<Rightarrow> user_subscription_row list \<Rightarrow> int \<Rightarrow> ComprehensiveUserData" where
  "comprehensive_data userData userWithSubscriptions now =
     (let stripeSubscriptions = stripeSubscriptions_of userWithSubscriptions;
          activeStripeSubscription = activeStripeSubscription_of stripeSubscriptions
      in \<lparr>cud_id = row_userId userData,
          cud_email = row_email userData,
          cud_emailVerified = row_emailVerified userData,
          cud_name = name_or_email_prefix (row_name userData) (row_email userData),
          cud_image = row_image userData,
          cud_stripeCustomerId = row_stripeCustomerId userData,
          cud_createdAt = row_userCreatedAt userData,
          cud_updatedAt = row_userUpdatedAt userData,
          isProUser = (activeStripeSubscription \<noteq> None),
          subscriptionStatus =
            (case activeStripeSubscription of
               Some sub \<Rightarrow> Status_active
             | None \<Rightarrow> inactive_status stripeSubscriptions now),
          stripeSubscription = activeStripeSubscription\<rparr>)"

text \<open>
  \<^verbatim>\<open>getComprehensiveUserData()\<close>: the value returned (\<open>None\<close> is \<^verbatim>\<open>null\<close>) and the
  caches afterwards. The clock is read by the cache lookup (\<open>now1\<close>), by \<^verbatim>\<open>new Date()\<close>
  (\<open>now2\<close>) and by the cache store (\<open>now3\<close>). Every error thrown inside is caught and
  turned into \<^verbatim>\<open>null\<close>.
\<close>

definition getComprehensiveUserData ::
  "request_env \<Rightarrow> user_caches \<Rightarrow> ComprehensiveUserData option \<times> user_caches" where
  "getComprehensiveUserData env c =
     (case getSession env of
        Inl e \<Rightarrow> (None, c)
      | Inr session \<Rightarrow>
          (case session_user_id session of
             None \<Rightarrow> (None, c)
           | Some userId \<Rightarrow>
               (case getCachedUserData c (now1 env) userId of
                  (Some cached, c1) \<Rightarrow> (Some cached, c1)
                | (None, c1) \<Rightarrow>
                    (case readDb env of
                       Inl e \<Rightarrow> (None, c1)
                     | Inr db \<Rightarrow>
                         (case select_user_with_subscriptions db userId of
                            [] \<Rightarrow> (None, c1)
                          | userData # rest \<Rightarrow>
                              (let comprehensiveData =
                                     comprehensive_data userData (userData # rest) (now2 env)
                               in (Some comprehensiveData,
                                   setCachedUserData c1 (now3 env) userId comprehensiveData)))))))"

text \<open>
  \<^verbatim>\<open>getLightweightUserAuth()\<close>. The clock is read by the lightweight lookup (\<open>now1\<close>),
  by the full-data lookup (\<open>now2\<close>) and by the store (\<open>now3\<close>).
\<close>

definition getLightweightUserAuth ::
  "request_env \<Rightarrow> user_caches \<Rightarrow> LightweightUserAuth option \<times> user_caches" where
  "getLightweightUserAuth env c =
     (case getSession env of
        Inl e \<Rightarrow> (None, c)
      | Inr session \<Rightarrow>
          (case session_user_id session of
             None \<Rightarrow> (None, c)
           | Some userId \<Rightarrow>
               (case getCachedLightweightAuth c (now1 env) userId of
                  (Some cached, c1) \<Rightarrow> (Some cached, c1)
                | (None, c1) \<Rightarrow>
                    (case getCachedUserData c1 (now2 env) userId of
                       (Some fullCached, c2) \<Rightarrow>
                         (let lightweightData =
                                \<lparr>lw_userId = cud_id fullCached, lw_email = cud_email fullCached,
                                 lw_isProUser = isProUser fullCached\<rparr>
                          in (Some lightweightData,
                              setCachedLightweightAuth c2 (now3 env) userId lightweightData))
                     | (None, c2) \<Rightarrow>
                         (case readDb env of
                            Inl e \<Rightarrow> (None, c2)
                          | Inr db \<Rightarrow>
                              (case select_auth_rows db userId of
                                 [] \<Rightarrow> (None, c2)
                               | r0 # rest \<Rightarrow>
                                   (let hasActiveStripeSub =
                                          list_ex (\<lambda>row. ar_subscriptionStatus row = Some ''active'')
                                                  (r0 # rest);
                                        lightweightData =
                                          \<lparr>lw_userId = ar_userId r0, lw_email = ar_email r0,
                                           lw_isProUser = hasActiveStripeSub\<rparr>
                                    in (Some lightweightData,
                                        setCachedLightweightAuth c2 (now3 env) userId
                                          lightweightData))))))))"

section \<open>The Reddit search tool (lib/tools/reddit-search)\<close>

datatype time_range = day | week | month | year

text \<open>The tool's input; a JavaScript number is a rational here.\<close>

record reddit_input =
  queries :: "string list"
  maxResults :: "rat list option"
  timeRange :: "time_range list option"

text \<open>
  The \<^verbatim>\<open>inputSchema\<close>: \<^verbatim>\<open>z.array(z.string().max(200)).min(1).max(5)\<close> for the queries; the
  other two fields are optional arrays whose element types the record already has.
\<close>

definition inputSchema :: "reddit_input \<Rightarrow> bool" where
  "inputSchema inp =
     (list_all (\<lambda>q. length q \<le> 200) (queries inp)
      \<and> 1 \<le> length (queries inp) \<and> length (queries inp) \<le> 5)"

text \<open>\<^verbatim>\<open>xs?.[i]\<close> on an optional array, and \<^verbatim>\<open>a || b\<close> on an optional number: \<^verbatim>\<open>undefined\<close>
  and 0 are falsy.\<close>

definition opt_index :: "'a list option \<Rightarrow> nat \<Rightarrow> 'a option" where
  "opt_index xs i = (case xs of None \<Rightarrow> None | Some ys \<Rightarrow> js_index ys (int i))"

definition or_number :: "rat option \<Rightarrow> rat \<Rightarrow> rat" where
  "or_number a b = (case a of None \<Rightarrow> b | Some v \<Rightarrow> (if v = 0 then b else v))"

text \<open>\<^verbatim>\<open>const currentMaxResults = maxResults?.[index] || maxResults?.[0] || 20\<close>\<close>

definition currentMaxResults :: "rat list option \<Rightarrow> nat \<Rightarrow> rat" where
  "currentMaxResults ms index = or_number (opt_index ms index) (or_number (opt_index ms 0) 20)"

text \<open>The limit as the specification words it: \<^verbatim>\<open>maxResults[index]\<close> when the array has
  a value there, else \<^verbatim>\<open>maxResults[0]\<close> when it has one, else 20.\<close>

definition spec_currentMaxResults :: "rat list option \<Rightarrow> nat \<Rightarrow> rat" where
  "spec_currentMaxResults ms index =
     (case opt_index ms index of
        Some v \<Rightarrow> v
      | None \<Rightarrow> (case opt_index ms 0 of Some v \<Rightarrow> v | None \<Rightarrow> 20))"

text \<open>One result of the Tavily search, and what the tool makes of it.\<close>

record tavily_result =
  tr_url :: string
  tr_title :: string
  tr_content :: string
  tr_publishedDate :: "string option"
  tr_score :: rat

record reddit_result =
  rr_url :: string
  rr_title :: string
  rr_content :: string
  rr_published_date :: "string option"
  rr_subreddit :: string
  rr_isRedditPost :: bool
  rr_score :: rat

text \<open>\<open>s\<close> begins with the lower-case text \<open>p\<close>, letter case ignored (the \<^verbatim>\<open>i\<close> flag).\<close>

definition starts_with_ci :: "string \<Rightarrow> string \<Rightarrow> bool" where
  "starts_with_ci p s = (toLowerCase (take (length p) s) = p)"

text \<open>
  \<^verbatim>\<open>url.match(/reddit\.com\/r\/([^/]+)/i)\<close>: the first group of the leftmost match, the
  characters after \<^verbatim>\<open>reddit.com/r/\<close> up to the next slash, at least one.
\<close>

fun subreddit_match :: "string \<Rightarrow> string option" where
  "subreddit_match [] = None"
| "subreddit_match (c # cs) =
     (if starts_with_ci ''reddit.com/r/'' (c # cs)
         \<and> takeWhile (\<lambda>x. x \<noteq> CHR ''/'') (drop 13 (c # cs)) \<noteq> []
      then Some (takeWhile (\<lambda>x. x \<noteq> CHR ''/'') (drop 13 (c # cs)))
      else subreddit_match cs)"

text \<open>\<^verbatim>\<open>/reddit\.com\/r\/[^/]+\/comments\//i.test(url)\<close>\<close>

fun is_reddit_post :: "string \<Rightarrow> bool" where
  "is_reddit_post [] = False"
| "is_reddit_post (c # cs) =
     (if starts_with_ci ''reddit.com/r/'' (c # cs)
         \<and> takeWhile (\<lambda>x. x \<noteq> CHR ''/'') (drop 13 (c # cs)) \<noteq> []
         \<and> starts_with_ci ''/comments/'' (dropWhile (\<lambda>x. x \<noteq> CHR ''/'') (drop 13 (c # cs)))
      then True
      else is_reddit_post cs)"

definition process_result :: "tavily_result \<Rightarrow> reddit_result" where
  "process_result result =
     \<lparr>rr_url = tr_url result,
      rr_title = (if tr_title result = [] then tr_url result else tr_title result),
      rr_content = tr_content result,
      rr_published_date = tr_publishedDate result,
      rr_subreddit = (case subreddit_match (tr_url result) of
                        Some name \<Rightarrow> name
                      | None \<Rightarrow> ''unknown''),
      rr_isRedditPost = is_reddit_post (tr_url result),
      rr_score = tr_score result\<rparr>"

record search_entry =
  se_query :: string
  se_results :: "reddit_result list"

text \<open>The \<^verbatim>\<open>data-query_completion\<close> notifications a query writes to the data stream.\<close>

datatype query_status = Q_started | Q_completed | Q_error

record query_completion =
  qc_query :: string
  qc_index :: nat
  qc_total :: nat
  qc_status :: query_status
  qc_resultsCount :: nat
  qc_imagesCount :: nat

text \<open>
  The Tavily client: the outcome of the search call made for the query at position
  \<open>index\<close>, with the result limit passed to it. \<open>Inl\<close> is a call that throws.
\<close>

type_synonym tavily_search = "nat \<Rightarrow> string \<Rightarrow> rat \<Rightarrow> error + tavily_result list"

text \<open>
  The async function mapped over the queries: what its promise settles to (\<open>Inl\<close> would
  be a rejection) and the notifications it writes, in order, when the tool was given a
  data stream (writing to the stream does not throw). The \<^verbatim>\<open>catch\<close> turns a throw of the
  search into an entry without results.
\<close>

definition search_query ::
  "tavily_search \<Rightarrow> rat list option \<Rightarrow> nat \<Rightarrow> nat \<times> string
     \<Rightarrow> (error + search_entry) \<times> query_completion list" where
  "search_query tvly ms total_queries iq =
     (let index = fst iq; query = snd iq;
          started = \<lparr>qc_query = query, qc_index = index, qc_total = total_queries,
                     qc_status = Q_started, qc_resultsCount = 0, qc_imagesCount = 0\<rparr>
      in case tvly index query (currentMaxResults ms index) of
           Inr results \<Rightarrow>
             (let processedResults = map process_result results
              in (Inr \<lparr>se_query = query, se_results = processedResults\<rparr>,
                  [started,
                   \<lparr>qc_query = query, qc_index = index, qc_total = total_queries,
                    qc_status = Q_completed, qc_resultsCount = length processedResults,
                    qc_imagesCount = 0\<rparr>]))
         | Inl e \<Rightarrow>
             (Inr \<lparr>se_query = query, se_results = []\<rparr>,
              [started,
               \<lparr>qc_query = query, qc_index = index, qc_total = total_queries,
                qc_status = Q_error, qc_resultsCount = 0, qc_imagesCount = 0\<rparr>]))"

text \<open>\<^verbatim>\<open>Promise.all\<close>: the values in order, or the first rejection.\<close>

fun promise_all :: "(error + 'a) list \<Rightarrow> error + 'a list" where
  "promise_all [] = Inr []"
| "promise_all (Inl e # ps) = Inl e"
| "promise_all (Inr x # ps) =
     (case promise_all ps of Inl e \<Rightarrow> Inl e | Inr xs \<Rightarrow> Inr (x # xs))"

text \<open>\<^verbatim>\<open>execute\<close>: the \<^verbatim>\<open>searches\<close> array it resolves to, or the error it rejects with.\<close>

definition reddit_execute :: "tavily_search \<Rightarrow> reddit_input \<Rightarrow> error + search_entry list" where
  "reddit_execute tvly inp =
     promise_all (map (\<lambda>iq. fst (search_query tvly (maxResults inp) (length (queries inp)) iq))
                      (enumerate 0 (queries inp)))"

text \<open>
  A call of the tool by the model: the framework validates the input against the
  \<^verbatim>\<open>inputSchema\<close> and runs \<^verbatim>\<open>execute\<close> only on an input that passes.
\<close>

datatype 'a tool_outcome = Invalid_input | Executed 'a

definition reddit_tool_call ::
  "tavily_search \<Rightarrow> reddit_input \<Rightarrow> (error + search_entry list) tool_outcome" where
  "reddit_tool_call tvly inp =
     (if inputSchema inp then Executed (reddit_execute tvly inp) else Invalid_input)"

section \<open>The trending movies tool (lib/tools/trending-movies)\<close>

text \<open>
  A show as the TVMaze schedule embeds it in an episode. An optional chain such as
  \<^verbatim>\<open>show.rating?.average\<close> is one option: \<open>None\<close> when any link is missing or \<^verbatim>\<open>null\<close>.
\<close>

record tv_show =
  show_id :: int
  show_imdb :: "string option"
  show_name :: string
  show_summary :: "string option"
  show_rating_average :: "rat option"
  show_image_original :: "string option"
  show_premiered :: "string option"
  show_genres :: "string list option"

datatype schedule_episode = Episode (ep_show: tv_show)

record movie_result =
  mr_id :: int
  mr_imdb_id :: "string option"
  mr_name :: string
  mr_title :: string
  mr_overview :: string
  mr_vote_average :: rat
  mr_poster_path :: "string option"
  mr_backdrop_path :: "string option"
  mr_first_air_date :: "string option"
  mr_release_date :: "string option"
  mr_genres :: "string list"
  mr_year :: "string option"

text \<open>The test \<^verbatim>\<open>show.rating?.average\<close> in a condition: present and not 0.\<close>

definition has_rating :: "tv_show \<Rightarrow> bool" where
  "has_rating s = (case show_rating_average s of None \<Rightarrow> False | Some v \<Rightarrow> v \<noteq> 0)"

text \<open>
  \<^verbatim>\<open>showMap\<close>, a \<^verbatim>\<open>Map\<close> from show id to show, as the list of its entries in insertion
  order; \<^verbatim>\<open>showMap_add\<close> is the body of the \<^verbatim>\<open>forEach\<close>.
\<close>

definition showMap_has :: "(int \<times> tv_show) list \<Rightarrow> int \<Rightarrow> bool" where
  "showMap_has showMap k = list_ex (\<lambda>entry. fst entry = k) showMap"

definition showMap_add :: "(int \<times> tv_show) list \<Rightarrow> schedule_episode \<Rightarrow> (int \<times> tv_show) list" where
  "showMap_add showMap episode =
     (let s = ep_show episode
      in if \<not> showMap_has showMap (show_id s) \<and> has_rating s
         then showMap @ [(show_id s, s)]
         else showMap)"

definition build_showMap :: "schedule_episode list \<Rightarrow> (int \<times> tv_show) list" where
  "build_showMap data = foldl showMap_add [] data"

text \<open>
  \<^verbatim>\<open>.sort((a, b) => (b.rating?.average || 0) - (a.rating?.average || 0))\<close>: the stable
  sort by decreasing rating.
\<close>

definition rating_or_zero :: "tv_show \<Rightarrow> rat" where
  "rating_or_zero s = or_number (show_rating_average s) 0"

definition sort_by_rating_desc :: "tv_show list \<Rightarrow> tv_show list" where
  "sort_by_rating_desc shows = sort_key (\<lambda>s. - rating_or_zero s) shows"

text \<open>\<^verbatim>\<open>summary.replace(/<[^>]*>/g, '')\<close>: every \<^verbatim>\<open><\<close> that has a \<^verbatim>\<open>>\<close> after it goes, with
  everything up to the nearest such \<^verbatim>\<open>>\<close>.\<close>

function strip_tags :: "string \<Rightarrow> string" where
  "strip_tags [] = []"
| "strip_tags (c # cs) =
     (if c = CHR ''<'' \<and> dropWhile (\<lambda>x. x \<noteq> CHR ''>'') cs \<noteq> []
      then strip_tags (tl (dropWhile (\<lambda>x. x \<noteq> CHR ''>'') cs))
      else c # strip_tags cs)"
  by pat_completeness auto
termination
proof (relation "measure length")
  show "wf (measure length)" by simp
next
  fix c :: char and cs :: string
  assume "c = CHR ''<'' \<and> dropWhile (\<lambda>x. x \<noteq> CHR ''>'') cs \<noteq> []"
  have "length (tl (dropWhile (\<lambda>x. x \<noteq> CHR ''>'') cs)) \<le> length cs"
    using length_dropWhile_le [of "\<lambda>x. x \<noteq> CHR ''>''" cs] by simp
  then show "(tl (dropWhile (\<lambda>x. x \<noteq> CHR ''>'') cs), c # cs) \<in> measure length"
    by simp
next
  fix c :: char and cs :: string
  show "(cs, c # cs) \<in> measure length" by simp
qed

text \<open>\<^verbatim>\<open>s || null\<close> on an optional string: the empty string is falsy too.\<close>

definition or_null :: "string option \<Rightarrow> string option" where
  "or_null s = (case s of Some (c # cs) \<Rightarrow> Some (c # cs) | _ \<Rightarrow> None)"

text \<open>
  The object built for one show. \<open>getFullYear\<close> stands for
  \<^verbatim>\<open>new Date(d).getFullYear().toString()\<close>, which depends on the host's time zone.
\<close>

definition movie_of_show :: "(string \<Rightarrow> string) \<Rightarrow> tv_show \<Rightarrow> movie_result" where
  "movie_of_show getFullYear s =
     \<lparr>mr_id = show_id s,
      mr_imdb_id = or_null (show_imdb s),
      mr_name = show_name s,
      mr_title = show_name s,
      mr_overview = (case show_summary s of None \<Rightarrow> [] | Some summary \<Rightarrow> strip_tags summary),
      mr_vote_average = rating_or_zero s,
      mr_poster_path = or_null (show_image_original s),
      mr_backdrop_path = or_null (show_image_original s),
      mr_first_air_date = show_premiered s,
      mr_release_date = show_premiered s,
      mr_genres = (case show_genres s of None \<Rightarrow> [] | Some gs \<Rightarrow> gs),
      mr_year = map_option getFullYear (or_null (show_premiered s))\<rparr>"

definition trending_results :: "(string \<Rightarrow> string) \<Rightarrow> schedule_episode list \<Rightarrow> movie_result list" where
  "trending_results getFullYear data =
     map (movie_of_show getFullYear)
         (take 20 (sort_by_rating_desc (map snd (build_showMap data))))"

text \<open>The response to the schedule request, and \<^verbatim>\<open>execute\<close>, which throws what it catches.\<close>

record schedule_response =
  resp_ok :: bool
  resp_json :: "error + schedule_episode list"

definition trendingMovies_execute ::
  "(string \<Rightarrow> string) \<Rightarrow> error + schedule_response \<Rightarrow> error + movie_result list" where
  "trendingMovies_execute getFullYear fetched =
     (case fetched of
        Inl e \<Rightarrow> Inl e
      | Inr response \<Rightarrow>
          (if \<not> resp_ok response then Inl (Error ''TVMaze schedule fetch failed'')
           else (case resp_json response of
                   Inl e \<Rightarrow> Inl e
                 | Inr data \<Rightarrow> Inr (trending_results getFullYear data))))"

text \<open>The reading of ``first occurrence kept'' by the letter: every result is built from
  the first show of the schedule that has its id.\<close>

definition first_occurrence_kept ::
  "(string \<Rightarrow> string) \<Rightarrow> schedule_episode list \<Rightarrow> movie_result list \<Rightarrow> bool" where
  "first_occurrence_kept getFullYear data results =
     list_all (\<lambda>r. case find (\<lambda>s. show_id s = mr_id r) (map ep_show data) of
                      None \<Rightarrow> False
                    | Some s \<Rightarrow> r = movie_of_show getFullYear s) results"

section \<open>The student discount (lib/discount.ts)\<close>

text \<open>\<^verbatim>\<open>/\.edu\.[a-z]{2,3}$/.test(domain)\<close>: the domain ends with \<^verbatim>\<open>.edu.\<close> and \<open>k\<close> small
  letters, for \<open>k\<close> 2 or 3.\<close>

definition is_small_letter :: "char \<Rightarrow> bool" where
  "is_small_letter c = (c \<in> set ''abcdefghijklmnopqrstuvwxyz'')"

definition ends_with_edu_cc :: "nat \<Rightarrow> string \<Rightarrow> bool" where
  "ends_with_edu_cc k domain =
     (5 + k \<le> length domain
      \<and> take 5 (drop (length domain - (5 + k)) domain) = ''.edu.''
      \<and> list_all is_small_letter (drop (length domain - k) domain))"

definition edu_country_regex :: "string \<Rightarrow> bool" where
  "edu_country_regex domain = (ends_with_edu_cc 2 domain \<or> ends_with_edu_cc 3 domain)"

text \<open>The callback of \<^verbatim>\<open>studentDomains.some\<close>.\<close>

definition matches_pattern :: "string \<Rightarrow> string \<Rightarrow> bool" where
  "matches_pattern domain pattern =
     (let lowerPattern = toLowerCase pattern
      in if lowerPattern = ''.edu''
         then endsWith domain ''.edu'' \<or> edu_country_regex domain
         else endsWith domain lowerPattern)"

definition isStudentEmail :: "string \<Rightarrow> string list \<Rightarrow> bool" where
  "isStudentEmail email studentDomains =
     (if email = [] then False
      else if studentDomains = [] then False
      else (let lowerEmail = toLowerCase email;
                emailParts = js_split CHR ''@'' lowerEmail
            in if length emailParts \<noteq> 2 then False
               else (case js_index emailParts 1 of
                       None \<Rightarrow> False
                     | Some domain \<Rightarrow> list_ex (matches_pattern domain) studentDomains)))"

section \<open>Example data and notions used in the proofs\<close>

text \<open>A user with one canceled and one active subscription, a request of that user, and
  what that request computes.\<close>

definition example_user :: user_row where
  "example_user =
     \<lparr>u_id = ''u1'', u_email = ''ada@example.edu'', u_emailVerified = True, u_name = None,
      u_image = None, u_stripeCustomerId = Some ''cus_1'', u_createdAt = 1000,
      u_updatedAt = 2000\<rparr>"

definition example_subscription :: "string \<Rightarrow> string \<Rightarrow> int \<Rightarrow> subscription_row" where
  "example_subscription i status periodEnd =
     \<lparr>s_id = i, s_plan = ''pro'', s_referenceId = ''u1'', s_status = Some status,
      s_periodStart = Some 0, s_periodEnd = Some periodEnd, s_cancelAtPeriodEnd = None,
      s_cancelAt = None, s_canceledAt = None, s_endedAt = None\<rparr>"

definition example_db :: database where
  "example_db =
     \<lparr>users = [example_user],
      subscriptions = [example_subscription ''sub_1'' ''canceled'' 5000,
                       example_subscription ''sub_2'' ''active'' 9000]\<rparr>"

definition example_env :: request_env where
  "example_env =
     \<lparr>getSession = Inr (Some (Session (Some ''u1''))), readDb = Inr example_db,
      now1 = 6000, now2 = 6001, now3 = 6002\<rparr>"

definition empty_caches :: user_caches where
  "empty_caches = \<lparr>userDataCache = Map.empty, lightweightAuthCache = Map.empty\<rparr>"

definition example_data :: ComprehensiveUserData where
  "example_data =
     \<lparr>cud_id = ''u1'', cud_email = ''ada@example.edu'', cud_emailVerified = True,
      cud_name = ''ada'', cud_image = None, cud_stripeCustomerId = Some ''cus_1'',
      cud_createdAt = 1000, cud_updatedAt = 2000, isProUser = True,
      subscriptionStatus = Status_active,
      stripeSubscription = Some \<lparr>ss_id = Some ''sub_2'', ss_plan = Some ''pro'',
        ss_status = Some ''active'', ss_periodStart = Some 0, ss_periodEnd = Some 9000,
        ss_cancelAtPeriodEnd = False, ss_cancelAt = None, ss_canceledAt = None,
        ss_endedAt = None\<rparr>\<rparr>"

text \<open>A later request of the same user, after the subscriptions are gone from the tables,
  and the lightweight form of the example data.\<close>

definition stale_env :: request_env where
  "stale_env =
     example_env\<lparr>readDb := Inr (example_db\<lparr>subscriptions := []\<rparr>), now1 := 7000, now2 := 7001,
                  now3 := 7002\<rparr>"

definition example_lightweight :: LightweightUserAuth where
  "example_lightweight =
     \<lparr>lw_userId = ''u1'', lw_email = ''ada@example.edu'', lw_isProUser = True\<rparr>"

text \<open>The entry of one query, as a function of the outcome of its own search call.\<close>

definition entry_of :: "tavily_search \<Rightarrow> rat list option \<Rightarrow> nat \<times> string \<Rightarrow> search_entry" where
  "entry_of tvly ms iq =
     (case tvly (fst iq) (snd iq) (currentMaxResults ms (fst iq)) of
        Inl e \<Rightarrow> \<lparr>se_query = snd iq, se_results = []\<rparr>
      | Inr results \<Rightarrow> \<lparr>se_query = snd iq, se_results = map process_result results\<rparr>)"

definition example_tavily_result :: tavily_result where
  "example_tavily_result =
     \<lparr>tr_url = ''https://Reddit.com/r/hol/comments/1/'',
      tr_title = '''', tr_content = ''A thread'', tr_publishedDate = None, tr_score = 9 / 10\<rparr>"

definition example_tavily :: tavily_search where
  "example_tavily index query limit =
     (if index = 1 then Inl (Error ''request timed out'') else Inr [example_tavily_result])"

definition example_input :: reddit_input where
  "example_input = \<lparr>queries = [''isabelle'', ''hol'', ''proofs''], maxResults = Some [5],
                    timeRange = None\<rparr>"

text \<open>What holds of \<^verbatim>\<open>showMap\<close> throughout the \<^verbatim>\<open>forEach\<close>: no id twice, every entry under
  the id of its show, every show with a rating.\<close>

definition showMap_ok :: "(int \<times> tv_show) list \<Rightarrow> bool" where
  "showMap_ok m =
     (distinct (map fst m)
      \<and> (\<forall>entry \<in> set m. fst entry = show_id (snd entry) \<and> has_rating (snd entry)))"

definition example_show :: "int \<Rightarrow> string \<Rightarrow> rat option \<Rightarrow> tv_show" where
  "example_show i n r =
     \<lparr>show_id = i, show_imdb = None, show_name = n, show_summary = Some ''<p>News</p>'',
      show_rating_average = r, show_image_original = None, show_premiered = Some ''2020-05-01'',
      show_genres = None\<rparr>"

definition example_schedule :: "schedule_episode list" where
  "example_schedule =
     [Episode (example_show 1 ''A'' None),
      Episode (example_show 2 ''C'' (Some 7)),
      Episode (example_show 1 ''B'' (Some (17 / 2))),
      Episode (example_show 3 ''D'' (Some 0)),
      Episode (example_show 2 ''E'' (Some 9))]"


section \<open>Facts about the selector\<close>

lemma MAX_WEIGHT_eq: "MAX_WEIGHT = 6"
  by (simp add: MAX_WEIGHT_def REPLICA_WEIGHTS_def)

lemma WEIGHT_GCD_eq: "WEIGHT_GCD = 2"
  by (simp add: WEIGHT_GCD_def REPLICA_WEIGHTS_def js_rem_def)



lemma select_loop_1:
  "select_hit w (select_step n s) \<Longrightarrow> select_loop w n s = Some (select_step n s)"
  by (subst select_loop.simps) simp

lemma select_loop_2:
  "\<not> select_hit w (select_step n s) \<Longrightarrow> select_hit w (select_step n (select_step n s)) \<Longrightarrow>
   select_loop w n s = Some (select_step n (select_step n s))"
  by (subst select_loop.simps) (simp add: select_loop_1)

lemma step_eval:
  "select_step n \<lparr>currentIndex = i, currentWeight = w\<rparr> =
     \<lparr>currentIndex = js_rem (i + 1) (int n),
      currentWeight = (if js_rem (i + 1) (int n) = 0 then (if w - 2 \<le> 0 then 6 else w - 2) else w)\<rparr>"
  by (simp add: select_step_def Let_def WEIGHT_GCD_eq MAX_WEIGHT_eq)

lemma hit_eval:
  "select_hit ws \<lparr>currentIndex = i, currentWeight = w\<rparr> =
     (0 \<le> i \<and> i < int (length ws) \<and> ws ! nat i \<ge> w)"
  by (auto simp add: select_hit_def js_index_def)

lemma loop_two:
  assumes "selector_inv s"
  shows "\<exists>s'. select_loop (take 2 REPLICA_WEIGHTS) 2 s = Some s' \<and> selector_inv s'
     \<and> currentIndex s' \<in> {0, 1}
     \<and> (s' = select_step 2 s \<or> s' = select_step 2 (select_step 2 s))"
proof -
  obtain i w where s: "s = \<lparr>currentIndex = i, currentWeight = w\<rparr>"
    by (cases s) simp
  from assms s have iw: "i \<in> {- 1, 0, 1}" "w \<in> {0, 2, 4, 6}"
    by (simp_all add: selector_inv_def)
  then show ?thesis unfolding s
    apply (elim insertE emptyE)
    apply (simp_all add: select_loop.simps step_eval hit_eval js_rem_def REPLICA_WEIGHTS_def selector_inv_def)
    done
qed

lemma loop_one:
  assumes "selector_inv s"
  shows "\<exists>s'. select_loop (take 1 REPLICA_WEIGHTS) 1 s = Some s' \<and> selector_inv s'
     \<and> currentIndex s' = 0
     \<and> (s' = select_step 1 s \<or> s' = select_step 1 (select_step 1 s))"
proof -
  obtain i w where s: "s = \<lparr>currentIndex = i, currentWeight = w\<rparr>"
    by (cases s) simp
  from assms s have iw: "i \<in> {- 1, 0, 1}" "w \<in> {0, 2, 4, 6}"
    by (simp_all add: selector_inv_def)
  then show ?thesis unfolding s
    apply (elim insertE emptyE)
    apply (simp_all add: select_loop.simps step_eval hit_eval js_rem_def REPLICA_WEIGHTS_def selector_inv_def)
    done
qed


lemma selectReplica_two_eval:
  "selectReplica \<lparr>currentIndex = - 1, currentWeight = 0\<rparr> [a, b] = Some (Inr (Some b), \<lparr>currentIndex = 1, currentWeight = 6\<rparr>)"
  "selectReplica \<lparr>currentIndex = 1, currentWeight = 6\<rparr> [a, b] = Some (Inr (Some a), \<lparr>currentIndex = 0, currentWeight = 4\<rparr>)"
  "selectReplica \<lparr>currentIndex = 0, currentWeight = 4\<rparr> [a, b] = Some (Inr (Some b), \<lparr>currentIndex = 1, currentWeight = 4\<rparr>)"
  "selectReplica \<lparr>currentIndex = 1, currentWeight = 4\<rparr> [a, b] = Some (Inr (Some a), \<lparr>currentIndex = 0, currentWeight = 2\<rparr>)"
  "selectReplica \<lparr>currentIndex = 0, currentWeight = 2\<rparr> [a, b] = Some (Inr (Some b), \<lparr>currentIndex = 1, currentWeight = 2\<rparr>)"
  "selectReplica \<lparr>currentIndex = 1, currentWeight = 2\<rparr> [a, b] = Some (Inr (Some b), \<lparr>currentIndex = 1, currentWeight = 6\<rparr>)"
  by (simp_all add: selectReplica_def select_loop.simps step_eval hit_eval js_rem_def
      REPLICA_WEIGHTS_def js_index_def)

lemma select_calls_add:
  "select_calls (j + k) s xs =
     (case select_calls j s xs of
        None \<Rightarrow> None
      | Some (rs, s') \<Rightarrow>
          (case select_calls k s' xs of
             None \<Rightarrow> None
           | Some (rs', s'') \<Rightarrow> Some (rs @ rs', s'')))"
  by (induction j arbitrary: s) (auto split: option.splits)


lemma select_calls_5:
  "select_calls 5 \<lparr>currentIndex = 1, currentWeight = 2\<rparr> [a, b] =
     Some (cycle5 a b, \<lparr>currentIndex = 1, currentWeight = 2\<rparr>)"
  by (simp add: eval_nat_numeral selectReplica_two_eval cycle5_def)

lemma select_calls_Suc_init:
  "select_calls (Suc k) initial_selector [a, b] =
   select_calls (Suc k) \<lparr>currentIndex = 1, currentWeight = 2\<rparr> [a, b]"
  by (simp add: initial_selector_def selectReplica_two_eval)

lemma select_calls_cycles:
  "select_calls (5 * m + k) \<lparr>currentIndex = 1, currentWeight = 2\<rparr> [a, b] =
     (case select_calls k \<lparr>currentIndex = 1, currentWeight = 2\<rparr> [a, b] of
        None \<Rightarrow> None
      | Some (rs, s') \<Rightarrow> Some (concat (replicate m (cycle5 a b)) @ rs, s'))"
proof (induction m)
  case 0
  show ?case by (simp split: option.splits)
next
  case (Suc m)
  let ?S = "\<lparr>currentIndex = 1, currentWeight = 2\<rparr>"
  have "select_calls (5 * Suc m + k) ?S [a, b] = select_calls (5 + (5 * m + k)) ?S [a, b]"
    by (rule arg_cong [where f = "\<lambda>n. select_calls n ?S [a, b]"]) simp
  also have "\<dots> = (case select_calls (5 * m + k) ?S [a, b] of
        None \<Rightarrow> None
      | Some (rs', s'') \<Rightarrow> Some (cycle5 a b @ rs', s''))"
    by (subst select_calls_add) (simp add: select_calls_5)
  also have "\<dots> = (case select_calls k ?S [a, b] of
        None \<Rightarrow> None
      | Some (rs, s') \<Rightarrow> Some (concat (replicate (Suc m) (cycle5 a b)) @ rs, s'))"
    by (simp add: Suc.IH split: option.splits)
  finally show ?case .
qed

lemma window_eval:
  "r < 5 \<Longrightarrow> a \<noteq> b \<Longrightarrow>
   \<exists>rs s'. select_calls (r + 5) \<lparr>currentIndex = 1, currentWeight = 2\<rparr> [a, b] = Some (rs, s')
     \<and> length rs = r + 5
     \<and> count_list (drop r rs) (Inr (Some a)) = 2
     \<and> count_list (drop r rs) (Inr (Some b)) = 3"
proof -
  assume "r < 5" "a \<noteq> b"
  then consider "r = 0" | "r = 1" | "r = 2" | "r = 3" | "r = 4" by linarith
  then show ?thesis
    using \<open>a \<noteq> b\<close> by cases (auto simp add: eval_nat_numeral selectReplica_two_eval)
qed

text \<open>
  Claim C1. With the configured weights \<open>[4, 6]\<close> and starting from the initial module
  state, the calls of \<^verbatim>\<open>selectReplica\<close> on a two-element list \<open>[a, b]\<close> return, five
  calls after five calls, the elements in the order \<open>b, a, b, a, b\<close> (replica 1, 0, 1, 0,
  1); and any five consecutive calls (the calls \<open>j + 1\<close> to \<open>j + 5\<close>) return replica 0
  exactly twice and replica 1 exactly three times. \<^verbatim>\<open>getReadReplica\<close> is this selector on
  the two configured replicas.
\<close>

theorem weighted_round_robin:
  "getReadReplica s = selectReplica s [dbread1, dbread2]
   \<and> select_calls (5 * m) initial_selector [a, b] =
     Some (concat (replicate m [Inr (Some b), Inr (Some a), Inr (Some b), Inr (Some a), Inr (Some b)]),
           if m = 0 then initial_selector else \<lparr>currentIndex = 1, currentWeight = 2\<rparr>)
   \<and> (a \<noteq> b \<longrightarrow>
        (\<exists>rs s'. select_calls (j + 5) initial_selector [a, b] = Some (rs, s')
           \<and> length rs = j + 5
           \<and> count_list (take 5 (drop j rs)) (Inr (Some a)) = 2
           \<and> count_list (take 5 (drop j rs)) (Inr (Some b)) = 3))"
proof (intro conjI impI)
  show "getReadReplica s = selectReplica s [dbread1, dbread2]"
    by (simp add: getReadReplica_def db_replicas_def)
next
  show "select_calls (5 * m) initial_selector [a, b] =
     Some (concat (replicate m [Inr (Some b), Inr (Some a), Inr (Some b), Inr (Some a), Inr (Some b)]),
           if m = 0 then initial_selector else \<lparr>currentIndex = 1, currentWeight = 2\<rparr>)"
  proof (cases m)
    case 0
    then show ?thesis by simp
  next
    case (Suc m')
    have "select_calls (5 * m) initial_selector [a, b] =
          select_calls (Suc (5 * m' + 4)) initial_selector [a, b]"
      by (rule arg_cong [where f = "\<lambda>n. select_calls n initial_selector [a, b]"])
         (use Suc in simp)
    also have "\<dots> = select_calls (Suc (5 * m' + 4)) \<lparr>currentIndex = 1, currentWeight = 2\<rparr> [a, b]"
      by (rule select_calls_Suc_init)
    also have "\<dots> = select_calls (5 * m + 0) \<lparr>currentIndex = 1, currentWeight = 2\<rparr> [a, b]"
      by (rule arg_cong [where f = "\<lambda>n. select_calls n \<lparr>currentIndex = 1, currentWeight = 2\<rparr> [a, b]"])
         (use Suc in simp)
    also have "\<dots> = Some (concat (replicate m (cycle5 a b)), \<lparr>currentIndex = 1, currentWeight = 2\<rparr>)"
      by (subst select_calls_cycles) simp
    finally show ?thesis
      using Suc by (simp add: cycle5_def)
  qed
next
  assume ab: "a \<noteq> b"
  define q r where "q = j div 5" and "r = j mod 5"
  have j: "j = 5 * q + r" and r: "r < 5" by (simp_all add: q_def r_def)
  from window_eval [OF r ab] obtain rs s' where
    w: "select_calls (r + 5) \<lparr>currentIndex = 1, currentWeight = 2\<rparr> [a, b] = Some (rs, s')"
       "length rs = r + 5"
       "count_list (drop r rs) (Inr (Some a)) = 2"
       "count_list (drop r rs) (Inr (Some b)) = 3"
    by blast
  have "select_calls (j + 5) initial_selector [a, b] =
        select_calls (Suc (j + 4)) initial_selector [a, b]"
    by (rule arg_cong [where f = "\<lambda>n. select_calls n initial_selector [a, b]"]) simp
  also have "\<dots> = select_calls (Suc (j + 4)) \<lparr>currentIndex = 1, currentWeight = 2\<rparr> [a, b]"
    by (rule select_calls_Suc_init)
  also have "\<dots> = select_calls (5 * q + (r + 5)) \<lparr>currentIndex = 1, currentWeight = 2\<rparr> [a, b]"
    by (rule arg_cong [where f = "\<lambda>n. select_calls n \<lparr>currentIndex = 1, currentWeight = 2\<rparr> [a, b]"])
       (use j in simp)
  also have "\<dots> = Some (concat (replicate q (cycle5 a b)) @ rs, s')"
    by (simp only: select_calls_cycles w) simp
  finally have e: "select_calls (j + 5) initial_selector [a, b] =
      Some (concat (replicate q (cycle5 a b)) @ rs, s')" .
  have len: "length (concat (replicate q (cycle5 a b))) = 5 * q"
    by (induction q) (simp_all add: cycle5_def)
  have d: "drop j (concat (replicate q (cycle5 a b)) @ rs) = drop r rs"
    using len j by simp
  have t: "take 5 (drop r rs) = drop r rs" using w(2) by simp
  show "\<exists>rs s'. select_calls (j + 5) initial_selector [a, b] = Some (rs, s')
           \<and> length rs = j + 5
           \<and> count_list (take 5 (drop j rs)) (Inr (Some a)) = 2
           \<and> count_list (take 5 (drop j rs)) (Inr (Some b)) = 3"
    using e d t w len j by simp
qed

lemma select_loop_hit:
  assumes "select_loop w n s = Some s'"
  shows "select_hit w s'"
proof (rule select_loop.raw_induct [where P = "\<lambda>w n s s'. select_hit w s'", OF _ assms])
  fix f :: "int list \<Rightarrow> nat \<Rightarrow> selector_state \<Rightarrow> selector_state option"
    and w n s s'
  assume ih: "\<And>w n s s'. f w n s = Some s' \<Longrightarrow> select_hit w s'"
    and eq: "(if select_hit w (select_step n s) then Some (select_step n s)
              else f w n (select_step n s)) = Some s'"
  show "select_hit w s'"
  proof (cases "select_hit w (select_step n s)")
    case True
    with eq show ?thesis by simp
  next
    case False
    with eq have "f w n (select_step n s) = Some s'" by simp
    then show ?thesis by (rule ih)
  qed
qed

lemma select_loop_passes:
  assumes "select_loop w n s = Some s'"
    "s' = select_step n s \<or> s' = select_step n (select_step n s)"
  shows "s' = select_step n s \<or>
         (\<not> select_hit w (select_step n s) \<and> s' = select_step n (select_step n s))"
proof (cases "select_hit w (select_step n s)")
  case True
  then have "select_loop w n s = Some (select_step n s)" by (rule select_loop_1)
  with assms(1) show ?thesis by simp
next
  case False
  with assms(2) show ?thesis by blast
qed

lemma js_index_take:
  "js_index (take n xs) i = Some w \<Longrightarrow> js_index xs i = Some w"
  by (auto simp add: js_index_def split: if_splits)

text \<open>
  Claim C8. On the empty list \<^verbatim>\<open>selectReplica\<close> throws \<^verbatim>\<open>No replicas configured\<close>. On
  a list of one or two replicas, from the initial state and from every state a call can
  leave behind, the call returns: the loop ends after one pass, or after two when the first
  fails the exit test; the state it ends in passes the exit test, that is, the weight
  configured for the index reached is at least the current weight; the value returned is
  the element of the list at that index; and the state left is again such a state.
\<close>

theorem selectReplica_terminates:
  "selectReplica s [] = Some (Inl (Error ''No replicas configured''), s)
   \<and> selector_inv initial_selector
   \<and> (selector_inv s \<longrightarrow> replicas \<noteq> [] \<longrightarrow> length replicas \<le> 2 \<longrightarrow>
        (\<exists>x s'. selectReplica s replicas = Some (Inr (Some x), s')
           \<and> x \<in> set replicas
           \<and> js_index replicas (currentIndex s') = Some x
           \<and> select_hit (take (length replicas) REPLICA_WEIGHTS) s'
           \<and> (\<exists>w. js_index REPLICA_WEIGHTS (currentIndex s') = Some w \<and> currentWeight s' \<le> w)
           \<and> selector_inv s'
           \<and> (s' = select_step (length replicas) s
                \<or> (\<not> select_hit (take (length replicas) REPLICA_WEIGHTS)
                        (select_step (length replicas) s)
                   \<and> s' = select_step (length replicas) (select_step (length replicas) s)))))"
proof (intro conjI impI)
  show "selectReplica s [] = Some (Inl (Error ''No replicas configured''), s)"
    by (simp add: selectReplica_def)
  show "selector_inv initial_selector"
    by (simp add: selector_inv_def initial_selector_def)
next
  let ?n = "length replicas"
  let ?w = "take ?n REPLICA_WEIGHTS"
  assume inv: "selector_inv s" and ne: "replicas \<noteq> []" and le: "length replicas \<le> 2"
  from ne le consider "?n = 1" | "?n = 2"
    by (cases replicas) (auto simp: le_Suc_eq)
  then obtain s' where loop: "select_loop ?w ?n s = Some s'"
    and inv': "selector_inv s'"
    and idx: "0 \<le> currentIndex s'" "currentIndex s' < int ?n"
    and two: "s' = select_step ?n s \<or> s' = select_step ?n (select_step ?n s)"
  proof cases
    case 1
    from loop_one [OF inv] obtain s' where
      "select_loop (take 1 REPLICA_WEIGHTS) 1 s = Some s'" "selector_inv s'"
      "currentIndex s' = 0"
      "s' = select_step 1 s \<or> s' = select_step 1 (select_step 1 s)"
      by blast
    with 1 that show ?thesis by simp
  next
    case 2
    from loop_two [OF inv] obtain s' where
      "select_loop (take 2 REPLICA_WEIGHTS) 2 s = Some s'" "selector_inv s'"
      "currentIndex s' \<in> {0, 1}"
      "s' = select_step 2 s \<or> s' = select_step 2 (select_step 2 s)"
      by blast
    with 2 that show ?thesis by auto
  qed
  let ?x = "replicas ! nat (currentIndex s')"
  have hit: "select_hit ?w s'" using loop by (rule select_loop_hit)
  then obtain w where w: "js_index ?w (currentIndex s') = Some w" "currentWeight s' \<le> w"
    by (auto simp add: select_hit_def split: option.splits)
  from w(1) have w': "js_index REPLICA_WEIGHTS (currentIndex s') = Some w"
    by (rule js_index_take)
  have x: "js_index replicas (currentIndex s') = Some ?x"
    using idx by (simp add: js_index_def)
  have mem: "?x \<in> set replicas" using idx by simp
  have call: "selectReplica s replicas = Some (Inr (Some ?x), s')"
    using ne loop x by (simp add: selectReplica_def)
  have passes: "s' = select_step ?n s \<or>
      (\<not> select_hit ?w (select_step ?n s) \<and> s' = select_step ?n (select_step ?n s))"
    using loop two by (rule select_loop_passes)
  from call mem x hit w' w(2) inv' passes
  show "\<exists>x s'. selectReplica s replicas = Some (Inr (Some x), s')
           \<and> x \<in> set replicas
           \<and> js_index replicas (currentIndex s') = Some x
           \<and> select_hit (take (length replicas) REPLICA_WEIGHTS) s'
           \<and> (\<exists>w. js_index REPLICA_WEIGHTS (currentIndex s') = Some w \<and> currentWeight s' \<le> w)
           \<and> selector_inv s'
           \<and> (s' = select_step (length replicas) s
                \<or> (\<not> select_hit (take (length replicas) REPLICA_WEIGHTS)
                        (select_step (length replicas) s)
                   \<and> s' = select_step (length replicas) (select_step (length replicas) s)))"
    by blast
qed

theorem selectReplica_terminates_witness:
  "selector_inv initial_selector \<and> [dbread1, dbread2] \<noteq> [] \<and> length [dbread1, dbread2] \<le> 2
   \<and> selectReplica initial_selector [dbread1, dbread2] =
         Some (Inr (Some dbread2), \<lparr>currentIndex = 1, currentWeight = 6\<rparr>)
   \<and> select_hit (take (length [dbread1, dbread2]) REPLICA_WEIGHTS)
         \<lparr>currentIndex = 1, currentWeight = 6\<rparr>
   \<and> js_index REPLICA_WEIGHTS 1 = Some 6
   \<and> \<not> select_hit (take (length [dbread1, dbread2]) REPLICA_WEIGHTS)
         (select_step 2 initial_selector)
   \<and> (\<exists>x s'. selectReplica initial_selector [dbread1, dbread2] = Some (Inr (Some x), s')
           \<and> x \<in> set [dbread1, dbread2]
           \<and> select_hit (take (length [dbread1, dbread2]) REPLICA_WEIGHTS) s'
           \<and> selector_inv s')"
proof -
  have e: "selectReplica initial_selector [dbread1, dbread2] =
         Some (Inr (Some dbread2), \<lparr>currentIndex = 1, currentWeight = 6\<rparr>)"
    by (simp add: initial_selector_def selectReplica_two_eval)
  have h: "selector_inv initial_selector" "[dbread1, dbread2] \<noteq> []"
    "length [dbread1, dbread2] \<le> 2"
    by (simp_all add: selector_inv_def initial_selector_def)
  from selectReplica_terminates [of initial_selector "[dbread1, dbread2]"] h
  obtain x s' where r: "selectReplica initial_selector [dbread1, dbread2] = Some (Inr (Some x), s')"
    "x \<in> set [dbread1, dbread2]"
    "select_hit (take (length [dbread1, dbread2]) REPLICA_WEIGHTS) s'"
    "selector_inv s'"
    by blast
  from r(1) e have s': "s' = \<lparr>currentIndex = 1, currentWeight = 6\<rparr>" by simp
  have w: "js_index REPLICA_WEIGHTS 1 = Some 6"
    by (simp add: js_index_def REPLICA_WEIGHTS_def)
  have miss: "\<not> select_hit (take (length [dbread1, dbread2]) REPLICA_WEIGHTS)
         (select_step 2 initial_selector)"
    by (simp add: initial_selector_def step_eval hit_eval js_rem_def REPLICA_WEIGHTS_def)
  from r(3) have hit: "select_hit (take (length [dbread1, dbread2]) REPLICA_WEIGHTS)
         \<lparr>currentIndex = 1, currentWeight = 6\<rparr>"
    unfolding s' .
  have ex: "\<exists>x s'. selectReplica initial_selector [dbread1, dbread2] = Some (Inr (Some x), s')
           \<and> x \<in> set [dbread1, dbread2]
           \<and> select_hit (take (length [dbread1, dbread2]) REPLICA_WEIGHTS) s'
           \<and> selector_inv s'"
    using r by blast
  show ?thesis
    by (intro conjI) (fact h e hit w miss ex)+
qed

theorem weighted_round_robin_witness:
  "dbread1 \<noteq> dbread2
   \<and> select_calls 5 initial_selector db_replicas =
       Some ([Inr (Some dbread2), Inr (Some dbread1), Inr (Some dbread2), Inr (Some dbread1),
              Inr (Some dbread2)], \<lparr>currentIndex = 1, currentWeight = 2\<rparr>)
   \<and> (\<exists>rs s'. select_calls (3 + 5) initial_selector db_replicas = Some (rs, s')
           \<and> length rs = 3 + 5
           \<and> count_list (take 5 (drop 3 rs)) (Inr (Some dbread1)) = 2
           \<and> count_list (take 5 (drop 3 rs)) (Inr (Some dbread2)) = 3)"
  using weighted_round_robin [of initial_selector 1 dbread1 dbread2 3]
  by (simp add: db_replicas_def)


section \<open>Facts about subscriptions and the user data cache\<close>

lemma first_elem_None: "first_elem xs = None \<longleftrightarrow> xs = []"
  by (cases xs) (simp_all add: first_elem_def)

lemma sort_by_periodEnd_desc_Nil: "sort_by_periodEnd_desc xs = [] \<longleftrightarrow> xs = []"
proof -
  have "length (sort_by_periodEnd_desc xs) = length xs"
    by (simp add: sort_by_periodEnd_desc_def)
  then show ?thesis by (metis length_0_conv)
qed

lemma activeStripeSubscription_of_iff:
  "activeStripeSubscription_of subs \<noteq> None \<longleftrightarrow>
     (\<exists>sub \<in> set subs. ss_status sub = Some ''active'')"
  by (simp add: activeStripeSubscription_of_def first_elem_None sort_by_periodEnd_desc_Nil
      filter_empty_conv)

lemma set_left_join:
  "set (left_join_subscriptions db u) =
     (if \<exists>s \<in> set (subscriptions db). s_referenceId s = u_id u
      then Some ` {s \<in> set (subscriptions db). s_referenceId s = u_id u}
      else {None})"
proof (cases "filter (\<lambda>s. s_referenceId s = u_id u) (subscriptions db)")
  case Nil
  then show ?thesis
    by (auto simp add: left_join_subscriptions_def filter_empty_conv)
next
  case (Cons a as)
  then have "a \<in> set (filter (\<lambda>s. s_referenceId s = u_id u) (subscriptions db))" by simp
  then have ex: "\<exists>s \<in> set (subscriptions db). s_referenceId s = u_id u" by auto
  have "set (left_join_subscriptions db u) =
      Some ` set (filter (\<lambda>s. s_referenceId s = u_id u) (subscriptions db))"
    using Cons by (simp add: left_join_subscriptions_def)
  with ex show ?thesis by auto
qed

lemma active_joined_row_iff:
  "(\<exists>row \<in> set (select_user_with_subscriptions db userId).
       row_subscriptionId row \<noteq> None \<and> row_subscriptionStatus row = Some ''active'') \<longleftrightarrow>
   ((\<exists>u \<in> set (users db). u_id u = userId) \<and>
    (\<exists>s \<in> set (subscriptions db). s_referenceId s = userId \<and> s_status s = Some ''active''))"
  by (auto simp add: select_user_with_subscriptions_def set_left_join joined_row_def
      split: if_splits)

lemma active_auth_row_iff:
  "(\<exists>row \<in> set (select_auth_rows db userId). ar_subscriptionStatus row = Some ''active'') \<longleftrightarrow>
   ((\<exists>u \<in> set (users db). u_id u = userId) \<and>
    (\<exists>s \<in> set (subscriptions db). s_referenceId s = userId \<and> s_status s = Some ''active''))"
  by (auto simp add: select_auth_rows_def set_left_join split: if_splits)

lemma left_join_nonempty: "left_join_subscriptions db u \<noteq> []"
  by (simp add: left_join_subscriptions_def split: list.splits)

lemma select_user_with_subscriptions_Nil:
  "select_user_with_subscriptions db userId = [] \<longleftrightarrow> \<not> (\<exists>u \<in> set (users db). u_id u = userId)"
  by (auto simp add: select_user_with_subscriptions_def left_join_nonempty filter_empty_conv)

lemma select_auth_rows_Nil:
  "select_auth_rows db userId = [] \<longleftrightarrow> \<not> (\<exists>u \<in> set (users db). u_id u = userId)"
  by (auto simp add: select_auth_rows_def left_join_nonempty filter_empty_conv)

lemma isProUser_comprehensive_data:
  "isProUser (comprehensive_data userData rows now) \<longleftrightarrow>
     (\<exists>row \<in> set rows. row_subscriptionId row \<noteq> None \<and> row_subscriptionStatus row = Some ''active'')"
proof -
  have "isProUser (comprehensive_data userData rows now) \<longleftrightarrow>
      activeStripeSubscription_of (stripeSubscriptions_of rows) \<noteq> None"
    by (simp add: comprehensive_data_def Let_def)
  also have "\<dots> \<longleftrightarrow> (\<exists>sub \<in> set (stripeSubscriptions_of rows). ss_status sub = Some ''active'')"
    by (rule activeStripeSubscription_of_iff)
  also have "\<dots> \<longleftrightarrow> (\<exists>row \<in> set rows.
      row_subscriptionId row \<noteq> None \<and> row_subscriptionStatus row = Some ''active'')"
    by (auto simp add: stripeSubscriptions_of_def)
  finally show ?thesis .
qed

lemma getComprehensiveProStatus_iff:
  "ps_isProUser (getComprehensiveProStatus (Inr db) userId) \<longleftrightarrow>
     (\<exists>s \<in> set (subscriptions db). s_referenceId s = userId \<and> s_status s = Some ''active'')"
proof -
  have "ps_isProUser (getComprehensiveProStatus (Inr db) userId) \<longleftrightarrow>
      find (\<lambda>sub. s_status sub = Some ''active'') (select_subscriptions db userId) \<noteq> None"
    by (simp add: getComprehensiveProStatus_def Let_def split: option.splits)
  also have "\<dots> \<longleftrightarrow> (\<exists>s \<in> set (select_subscriptions db userId). s_status s = Some ''active'')"
    by (auto simp add: find_None_iff)
  also have "\<dots> \<longleftrightarrow>
      (\<exists>s \<in> set (subscriptions db). s_referenceId s = userId \<and> s_status s = Some ''active'')"
    by (auto simp add: select_subscriptions_def)
  finally show ?thesis .
qed

lemma pro_status_computed:
  "(ps_isProUser (getComprehensiveProStatus (Inr db) userId) \<longleftrightarrow>
      (\<exists>s \<in> set (subscriptions db). s_referenceId s = userId \<and> s_status s = Some ''active''))
   \<and> (getSession env = Inr session \<longrightarrow> session_user_id session = Some userId \<longrightarrow>
        readDb env = Inr db \<longrightarrow> (\<exists>u \<in> set (users db). u_id u = userId) \<longrightarrow>
        fst (getCachedUserData c (now1 env) userId) = None \<longrightarrow>
        (\<exists>d. fst (getComprehensiveUserData env c) = Some d \<and>
           (isProUser d \<longleftrightarrow>
              (\<exists>s \<in> set (subscriptions db).
                  s_referenceId s = userId \<and> s_status s = Some ''active''))))
   \<and> (getSession env = Inr session \<longrightarrow> session_user_id session = Some userId \<longrightarrow>
        readDb env = Inr db \<longrightarrow> (\<exists>u \<in> set (users db). u_id u = userId) \<longrightarrow>
        fst (getCachedLightweightAuth c (now1 env) userId) = None \<longrightarrow>
        fst (getCachedUserData (snd (getCachedLightweightAuth c (now1 env) userId))
               (now2 env) userId) = None \<longrightarrow>
        (\<exists>d. fst (getLightweightUserAuth env c) = Some d \<and>
           (lw_isProUser d \<longleftrightarrow>
              (\<exists>s \<in> set (subscriptions db).
                  s_referenceId s = userId \<and> s_status s = Some ''active''))))"
proof (intro conjI impI)
  show "ps_isProUser (getComprehensiveProStatus (Inr db) userId) \<longleftrightarrow>
      (\<exists>s \<in> set (subscriptions db). s_referenceId s = userId \<and> s_status s = Some ''active'')"
    by (rule getComprehensiveProStatus_iff)
next
  assume a: "getSession env = Inr session" "session_user_id session = Some userId"
    "readDb env = Inr db" "\<exists>u \<in> set (users db). u_id u = userId"
    "fst (getCachedUserData c (now1 env) userId) = None"
  from a(4) obtain r rs where rows: "select_user_with_subscriptions db userId = r # rs"
    using select_user_with_subscriptions_Nil [of db userId]
    by (cases "select_user_with_subscriptions db userId") auto
  obtain c1 where c1: "getCachedUserData c (now1 env) userId = (None, c1)"
    using a(5) by (cases "getCachedUserData c (now1 env) userId") auto
  have res: "fst (getComprehensiveUserData env c) = Some (comprehensive_data r (r # rs) (now2 env))"
    by (simp add: getComprehensiveUserData_def a c1 rows Let_def)
  have "isProUser (comprehensive_data r (r # rs) (now2 env)) \<longleftrightarrow>
      (\<exists>s \<in> set (subscriptions db). s_referenceId s = userId \<and> s_status s = Some ''active'')"
    using a(4) active_joined_row_iff [of db userId]
    by (simp only: isProUser_comprehensive_data rows [symmetric]) simp
  with res show "\<exists>d. fst (getComprehensiveUserData env c) = Some d \<and>
           (isProUser d \<longleftrightarrow>
              (\<exists>s \<in> set (subscriptions db).
                  s_referenceId s = userId \<and> s_status s = Some ''active''))"
    by blast
next
  assume a: "getSession env = Inr session" "session_user_id session = Some userId"
    "readDb env = Inr db" "\<exists>u \<in> set (users db). u_id u = userId"
    "fst (getCachedLightweightAuth c (now1 env) userId) = None"
    "fst (getCachedUserData (snd (getCachedLightweightAuth c (now1 env) userId))
               (now2 env) userId) = None"
  from a(4) obtain r rs where rows: "select_auth_rows db userId = r # rs"
    using select_auth_rows_Nil [of db userId]
    by (cases "select_auth_rows db userId") auto
  obtain c1 where c1: "getCachedLightweightAuth c (now1 env) userId = (None, c1)"
    using a(5) by (cases "getCachedLightweightAuth c (now1 env) userId") auto
  obtain c2 where c2: "getCachedUserData c1 (now2 env) userId = (None, c2)"
    using a(6) c1 by (cases "getCachedUserData c1 (now2 env) userId") auto
  let ?d = "\<lparr>lw_userId = ar_userId r, lw_email = ar_email r,
             lw_isProUser = list_ex (\<lambda>row. ar_subscriptionStatus row = Some ''active'') (r # rs)\<rparr>"
  have res: "fst (getLightweightUserAuth env c) = Some ?d"
    by (simp add: getLightweightUserAuth_def a c1 c2 rows Let_def)
  have "lw_isProUser ?d \<longleftrightarrow>
      (\<exists>row \<in> set (select_auth_rows db userId). ar_subscriptionStatus row = Some ''active'')"
    by (simp add: rows list_ex_iff)
  also have "\<dots> \<longleftrightarrow>
      (\<exists>s \<in> set (subscriptions db). s_referenceId s = userId \<and> s_status s = Some ''active'')"
    using a(4) by (simp only: active_auth_row_iff) simp
  finally show "\<exists>d. fst (getLightweightUserAuth env c) = Some d \<and>
           (lw_isProUser d \<longleftrightarrow>
              (\<exists>s \<in> set (subscriptions db).
                  s_referenceId s = userId \<and> s_status s = Some ''active''))"
    using res by blast
qed

lemmas example_defs = example_env_def example_db_def example_user_def example_subscription_def
  empty_caches_def

lemma example_rows:
  "select_user_with_subscriptions example_db ''u1'' =
     [joined_row example_user (Some (example_subscription ''sub_1'' ''canceled'' 5000)),
      joined_row example_user (Some (example_subscription ''sub_2'' ''active'' 9000))]"
  by (simp add: select_user_with_subscriptions_def left_join_subscriptions_def example_db_def
      example_user_def example_subscription_def)


text \<open>
  Claim C2. \<^verbatim>\<open>getCachedUserData(userId)\<close> returns data exactly when the map has an entry
  for the user whose \<^verbatim>\<open>expiresAt\<close> is still ahead of the clock; an entry that has reached
  or passed its \<^verbatim>\<open>expiresAt\<close> is deleted from the map and \<^verbatim>\<open>null\<close> is returned. For an
  entry stored at time \<open>t0\<close> and looked up at time \<open>t1\<close> this means: the stored data comes
  back exactly when \<open>t1 - t0 < CACHE_TTL_MS\<close>, which is five minutes.
\<close>

theorem getCachedUserData_ttl:
  "(fst (getCachedUserData c now userId) = Some d \<longleftrightarrow>
      (\<exists>e. userDataCache c userId = Some e \<and> ude_data e = d \<and> now < ude_expiresAt e))
   \<and> (\<forall>e. userDataCache c userId = Some e \<longrightarrow> ude_expiresAt e \<le> now \<longrightarrow>
         getCachedUserData c now userId =
           (None, c\<lparr>userDataCache := (userDataCache c)(userId := None)\<rparr>))
   \<and> getCachedUserData (setCachedUserData c t0 userId d) t1 userId =
        (if t1 - t0 < CACHE_TTL_MS then (Some d, setCachedUserData c t0 userId d)
         else (None, c\<lparr>userDataCache := (userDataCache c)(userId := None)\<rparr>))
   \<and> CACHE_TTL_MS = 5 * 60 * 1000"
proof (intro conjI allI impI)
  show "fst (getCachedUserData c now userId) = Some d \<longleftrightarrow>
      (\<exists>e. userDataCache c userId = Some e \<and> ude_data e = d \<and> now < ude_expiresAt e)"
    by (auto simp add: getCachedUserData_def split: option.splits)
next
  fix e
  assume "userDataCache c userId = Some e" "ude_expiresAt e \<le> now"
  then show "getCachedUserData c now userId =
           (None, c\<lparr>userDataCache := (userDataCache c)(userId := None)\<rparr>)"
    by (simp add: getCachedUserData_def)
next
  show "getCachedUserData (setCachedUserData c t0 userId d) t1 userId =
        (if t1 - t0 < CACHE_TTL_MS then (Some d, setCachedUserData c t0 userId d)
         else (None, c\<lparr>userDataCache := (userDataCache c)(userId := None)\<rparr>))"
    by (auto simp add: getCachedUserData_def setCachedUserData_def)
next
  show "CACHE_TTL_MS = 5 * 60 * 1000"
    by (simp add: CACHE_TTL_MS_def)
qed

theorem getCachedUserData_ttl_witness:
  "userDataCache (setCachedUserData empty_caches 0 ''u1'' example_data) ''u1'' =
      Some \<lparr>ude_data = example_data, ude_expiresAt = 300000\<rparr>
   \<and> ude_expiresAt \<lparr>ude_data = example_data, ude_expiresAt = 300000\<rparr> \<le> 300000
   \<and> getCachedUserData (setCachedUserData empty_caches 0 ''u1'' example_data) 300000 ''u1'' =
       (None, empty_caches)
   \<and> getCachedUserData (setCachedUserData empty_caches 0 ''u1'' example_data) 299999 ''u1'' =
       (Some example_data, setCachedUserData empty_caches 0 ''u1'' example_data)"
proof -
  let ?c = "setCachedUserData empty_caches 0 ''u1'' example_data"
  let ?e = "\<lparr>ude_data = example_data, ude_expiresAt = 300000\<rparr>"
  have h: "userDataCache ?c ''u1'' = Some ?e" "ude_expiresAt ?e \<le> 300000"
    by (simp_all add: setCachedUserData_def CACHE_TTL_MS_def)
  have del: "?c\<lparr>userDataCache := (userDataCache ?c)(''u1'' := None)\<rparr> = empty_caches"
    by (simp add: setCachedUserData_def empty_caches_def)
  from getCachedUserData_ttl [of ?c 300000 "''u1''" example_data 0 0] h
  have a: "getCachedUserData ?c 300000 ''u1'' =
          (None, ?c\<lparr>userDataCache := (userDataCache ?c)(''u1'' := None)\<rparr>)"
    by blast
  from getCachedUserData_ttl [of empty_caches 0 "''u1''" example_data 0 299999]
  have b: "getCachedUserData ?c 299999 ''u1'' = (Some example_data, ?c)"
    by (simp add: CACHE_TTL_MS_def)
  from a b h del show ?thesis by simp
qed

text \<open>
  Claim C4. \<^verbatim>\<open>getComprehensiveUserData\<close> is a read-through cache. When a call for a
  signed-in user misses the cache and returns a result, that result was computed from the
  rows read and is in the cache, expiring \<open>CACHE_TTL_MS\<close> after the store, when the call
  returns. Any later call for the same user that looks the cache up less than
  \<open>CACHE_TTL_MS\<close> after the store, the user's entry being untouched in between, returns
  the same result and leaves the caches as they are, whatever the database would answer
  then (the second environment is arbitrary, a failing read included).
\<close>

theorem read_through_cache:
  "getSession env1 = Inr session1 \<longrightarrow> session_user_id session1 = Some userId \<longrightarrow>
   fst (getCachedUserData c0 (now1 env1) userId) = None \<longrightarrow>
   getComprehensiveUserData env1 c0 = (Some d1, c1) \<longrightarrow>
     ((\<exists>db r rs. readDb env1 = Inr db \<and> select_user_with_subscriptions db userId = r # rs
          \<and> d1 = comprehensive_data r (r # rs) (now2 env1))
      \<and> userDataCache c1 userId =
            Some \<lparr>ude_data = d1, ude_expiresAt = now3 env1 + CACHE_TTL_MS\<rparr>
      \<and> (getSession env2 = Inr session2 \<longrightarrow> session_user_id session2 = Some userId \<longrightarrow>
          userDataCache c2 userId = userDataCache c1 userId \<longrightarrow>
          now1 env2 - now3 env1 < CACHE_TTL_MS \<longrightarrow>
          getComprehensiveUserData env2 c2 = (Some d1, c2)))"
proof (intro impI)
  assume s1: "getSession env1 = Inr session1" "session_user_id session1 = Some userId"
    and miss: "fst (getCachedUserData c0 (now1 env1) userId) = None"
    and call: "getComprehensiveUserData env1 c0 = (Some d1, c1)"
  obtain c' where c': "getCachedUserData c0 (now1 env1) userId = (None, c')"
    using miss by (cases "getCachedUserData c0 (now1 env1) userId") auto
  from call s1 c' obtain db r rs where
    db: "readDb env1 = Inr db" "select_user_with_subscriptions db userId = r # rs"
    and d1: "d1 = comprehensive_data r (r # rs) (now2 env1)"
    and c1: "c1 = setCachedUserData c' (now3 env1) userId d1"
    by (auto simp add: getComprehensiveUserData_def Let_def split: sum.splits list.splits)
  have stored: "userDataCache c1 userId =
      Some \<lparr>ude_data = d1, ude_expiresAt = now3 env1 + CACHE_TTL_MS\<rparr>"
    by (simp add: c1 setCachedUserData_def)
  have hit: "getComprehensiveUserData env2 c2 = (Some d1, c2)"
    if "getSession env2 = Inr session2" "session_user_id session2 = Some userId"
      "userDataCache c2 userId = userDataCache c1 userId"
      "now1 env2 - now3 env1 < CACHE_TTL_MS"
    using that stored by (simp add: getComprehensiveUserData_def getCachedUserData_def)
  from db d1 stored hit
  show "(\<exists>db r rs. readDb env1 = Inr db \<and> select_user_with_subscriptions db userId = r # rs
          \<and> d1 = comprehensive_data r (r # rs) (now2 env1))
      \<and> userDataCache c1 userId =
            Some \<lparr>ude_data = d1, ude_expiresAt = now3 env1 + CACHE_TTL_MS\<rparr>
      \<and> (getSession env2 = Inr session2 \<longrightarrow> session_user_id session2 = Some userId \<longrightarrow>
          userDataCache c2 userId = userDataCache c1 userId \<longrightarrow>
          now1 env2 - now3 env1 < CACHE_TTL_MS \<longrightarrow>
          getComprehensiveUserData env2 c2 = (Some d1, c2))"
    by blast
qed

text \<open>
  Claim C10. Pro status checks fail closed. When the read inside
  \<^verbatim>\<open>getComprehensiveProStatus\<close> throws, it returns \<^verbatim>\<open>{isProUser: false, source: 'none'}\<close>.
  \<^verbatim>\<open>isUserSubscribed\<close> returns false when getting the session throws, when there is no
  signed-in user, and when the read throws; it returns true only when a signed-in user has
  an active subscription row in tables that were read without error.
\<close>

theorem pro_status_fails_closed:
  "getComprehensiveProStatus (Inl e) userId = \<lparr>ps_isProUser = False, ps_source = Source_none\<rparr>
   \<and> (getSession env = Inl e \<longrightarrow> \<not> isUserSubscribed env)
   \<and> (getSession env = Inr session \<longrightarrow> session_user_id session = None \<longrightarrow>
        \<not> isUserSubscribed env)
   \<and> (readDb env = Inl e \<longrightarrow> \<not> isUserSubscribed env)
   \<and> (isUserSubscribed env \<longrightarrow>
        (\<exists>session userId db. getSession env = Inr session
           \<and> session_user_id session = Some userId \<and> readDb env = Inr db
           \<and> (\<exists>s \<in> set (subscriptions db).
                 s_referenceId s = userId \<and> s_status s = Some ''active'')))"
proof (intro conjI impI)
  show "getComprehensiveProStatus (Inl e) userId =
      \<lparr>ps_isProUser = False, ps_source = Source_none\<rparr>"
    by (simp add: getComprehensiveProStatus_def)
next
  assume "getSession env = Inl e"
  then show "\<not> isUserSubscribed env" by (simp add: isUserSubscribed_def)
next
  assume "getSession env = Inr session" "session_user_id session = None"
  then show "\<not> isUserSubscribed env" by (simp add: isUserSubscribed_def)
next
  assume "readDb env = Inl e"
  then show "\<not> isUserSubscribed env"
    by (simp add: isUserSubscribed_def getComprehensiveProStatus_def
        split: sum.splits option.splits)
next
  assume sub: "isUserSubscribed env"
  then obtain session userId where s: "getSession env = Inr session"
    "session_user_id session = Some userId"
    and p: "ps_isProUser (getComprehensiveProStatus (readDb env) userId)"
    by (auto simp add: isUserSubscribed_def split: sum.splits option.splits)
  from p obtain db where db: "readDb env = Inr db"
    by (cases "readDb env") (auto simp add: getComprehensiveProStatus_def)
  with p have "\<exists>s \<in> set (subscriptions db).
      s_referenceId s = userId \<and> s_status s = Some ''active''"
    by (simp add: getComprehensiveProStatus_iff)
  with s db show "\<exists>session userId db. getSession env = Inr session
           \<and> session_user_id session = Some userId \<and> readDb env = Inr db
           \<and> (\<exists>s \<in> set (subscriptions db).
                 s_referenceId s = userId \<and> s_status s = Some ''active'')"
    by blast
qed

lemma example_call:
  "getComprehensiveUserData example_env empty_caches =
     (Some example_data, setCachedUserData empty_caches 6002 ''u1'' example_data)"
  by (simp add: getComprehensiveUserData_def example_env_def empty_caches_def
      session_user_id_def getCachedUserData_def example_rows comprehensive_data_def
      Let_def stripeSubscriptions_of_def joined_row_def example_user_def
      example_subscription_def activeStripeSubscription_of_def sort_by_periodEnd_desc_def
      first_elem_def date_time_def name_or_email_prefix_def example_data_def)

theorem read_through_cache_witness:
  "getSession example_env = Inr (Some (Session (Some ''u1'')))
   \<and> session_user_id (Some (Session (Some ''u1''))) = Some ''u1''
   \<and> fst (getCachedUserData empty_caches (now1 example_env) ''u1'') = None
   \<and> getComprehensiveUserData example_env empty_caches =
        (Some example_data, setCachedUserData empty_caches 6002 ''u1'' example_data)
   \<and> getSession (example_env\<lparr>readDb := Inl (Error ''connection refused''), now1 := 306001\<rparr>) =
        Inr (Some (Session (Some ''u1'')))
   \<and> now1 (example_env\<lparr>readDb := Inl (Error ''connection refused''), now1 := 306001\<rparr>)
        - now3 example_env < CACHE_TTL_MS
   \<and> getComprehensiveUserData
        (example_env\<lparr>readDb := Inl (Error ''connection refused''), now1 := 306001\<rparr>)
        (setCachedUserData empty_caches 6002 ''u1'' example_data) =
        (Some example_data, setCachedUserData empty_caches 6002 ''u1'' example_data)"
proof -
  let ?c1 = "setCachedUserData empty_caches 6002 ''u1'' example_data"
  let ?env2 = "example_env\<lparr>readDb := Inl (Error ''connection refused''), now1 := 306001\<rparr>"
  have h: "getSession example_env = Inr (Some (Session (Some ''u1'')))"
    "session_user_id (Some (Session (Some ''u1''))) = Some ''u1''"
    "fst (getCachedUserData empty_caches (now1 example_env) ''u1'') = None"
    "getSession ?env2 = Inr (Some (Session (Some ''u1'')))"
    "now1 ?env2 - now3 example_env < CACHE_TTL_MS"
    by (simp_all add: example_env_def empty_caches_def session_user_id_def
        getCachedUserData_def CACHE_TTL_MS_def)
  from read_through_cache [of example_env "Some (Session (Some ''u1''))" "''u1''" empty_caches
      example_data ?c1 ?env2 "Some (Session (Some ''u1''))" ?c1] h example_call
  have "getComprehensiveUserData ?env2 ?c1 = (Some example_data, ?c1)"
    by blast
  with h example_call show ?thesis by simp
qed

theorem pro_status_fails_closed_witness:
  "getSession (example_env\<lparr>getSession := Inl (Error ''no request scope'')\<rparr>) =
      Inl (Error ''no request scope'')
   \<and> \<not> isUserSubscribed (example_env\<lparr>getSession := Inl (Error ''no request scope'')\<rparr>)
   \<and> getSession (example_env\<lparr>getSession := Inr None\<rparr>) = Inr None
   \<and> session_user_id None = None
   \<and> \<not> isUserSubscribed (example_env\<lparr>getSession := Inr None\<rparr>)
   \<and> readDb (example_env\<lparr>readDb := Inl (Error ''connection refused'')\<rparr>) =
        Inl (Error ''connection refused'')
   \<and> \<not> isUserSubscribed (example_env\<lparr>readDb := Inl (Error ''connection refused'')\<rparr>)
   \<and> isUserSubscribed example_env
   \<and> (\<exists>session userId db. getSession example_env = Inr session
           \<and> session_user_id session = Some userId \<and> readDb example_env = Inr db
           \<and> (\<exists>s \<in> set (subscriptions db).
                 s_referenceId s = userId \<and> s_status s = Some ''active''))"
proof -
  let ?a = "example_env\<lparr>getSession := Inl (Error ''no request scope'')\<rparr>"
  let ?b = "example_env\<lparr>getSession := Inr None\<rparr>"
  let ?c = "example_env\<lparr>readDb := Inl (Error ''connection refused'')\<rparr>"
  have a: "\<not> isUserSubscribed ?a"
    using pro_status_fails_closed [of "Error ''no request scope''" "''u1''" ?a None]
    by simp
  have b: "\<not> isUserSubscribed ?b"
    using pro_status_fails_closed [of "Error ''x''" "''u1''" ?b None]
    by (simp add: session_user_id_def)
  have c: "\<not> isUserSubscribed ?c"
    using pro_status_fails_closed [of "Error ''connection refused''" "''u1''" ?c None]
    by simp
  have d: "isUserSubscribed example_env"
    by (simp add: isUserSubscribed_def example_defs session_user_id_def
        getComprehensiveProStatus_def select_subscriptions_def)
  with pro_status_fails_closed [of "Error ''x''" "''u1''" example_env None]
  have e: "\<exists>session userId db. getSession example_env = Inr session
           \<and> session_user_id session = Some userId \<and> readDb example_env = Inr db
           \<and> (\<exists>s \<in> set (subscriptions db).
                 s_referenceId s = userId \<and> s_status s = Some ''active'')"
    by blast
  from a b c d e show ?thesis by (simp add: session_user_id_def)
qed


text \<open>
  Claim C3 says that in \<^verbatim>\<open>getComprehensiveUserData\<close> and \<^verbatim>\<open>getLightweightUserAuth\<close> too
  \<^verbatim>\<open>isProUser\<close> is true exactly when the user has an active subscription row. Both look
  in the cache first. The first request of the example user stores \<^verbatim>\<open>isProUser = true\<close>;
  a request a second later, when the tables hold no subscription row any more and
  \<^verbatim>\<open>getComprehensiveProStatus\<close> answers false, still gets \<^verbatim>\<open>isProUser = true\<close> from both.
\<close>

theorem stale_cache_counterexample:
  "getComprehensiveUserData example_env empty_caches =
      (Some example_data, setCachedUserData empty_caches 6002 ''u1'' example_data)
   \<and> getSession stale_env = Inr (Some (Session (Some ''u1'')))
   \<and> readDb stale_env = Inr (example_db\<lparr>subscriptions := []\<rparr>)
   \<and> subscriptions (example_db\<lparr>subscriptions := []\<rparr>) = []
   \<and> \<not> ps_isProUser (getComprehensiveProStatus (readDb stale_env) ''u1'')
   \<and> fst (getComprehensiveUserData stale_env
             (setCachedUserData empty_caches 6002 ''u1'' example_data)) = Some example_data
   \<and> isProUser example_data
   \<and> fst (getLightweightUserAuth stale_env
             (setCachedUserData empty_caches 6002 ''u1'' example_data)) = Some example_lightweight
   \<and> lw_isProUser example_lightweight"
proof -
  have c: "getComprehensiveUserData stale_env
             (setCachedUserData empty_caches 6002 ''u1'' example_data) =
           (Some example_data, setCachedUserData empty_caches 6002 ''u1'' example_data)"
    by (simp add: getComprehensiveUserData_def stale_env_def example_env_def
        session_user_id_def getCachedUserData_def setCachedUserData_def CACHE_TTL_MS_def)
  have l: "fst (getLightweightUserAuth stale_env
             (setCachedUserData empty_caches 6002 ''u1'' example_data)) = Some example_lightweight"
    by (simp add: getLightweightUserAuth_def stale_env_def example_env_def
        session_user_id_def getCachedUserData_def setCachedUserData_def CACHE_TTL_MS_def
        getCachedLightweightAuth_def empty_caches_def Let_def example_lightweight_def
        example_data_def)
  have p: "\<not> ps_isProUser (getComprehensiveProStatus (readDb stale_env) ''u1'')"
    by (simp add: stale_env_def getComprehensiveProStatus_def select_subscriptions_def)
  have s: "getSession stale_env = Inr (Some (Session (Some ''u1'')))"
    "readDb stale_env = Inr (example_db\<lparr>subscriptions := []\<rparr>)"
    "subscriptions (example_db\<lparr>subscriptions := []\<rparr>) = []"
    "isProUser example_data" "lw_isProUser example_lightweight"
    by (simp_all add: stale_env_def example_env_def example_data_def example_lightweight_def)
  from example_call c l p s show ?thesis by simp
qed

text \<open>
  Claim C3, amended. When the read returns the tables, \<^verbatim>\<open>getComprehensiveProStatus(userId)\<close>
  answers \<^verbatim>\<open>isProUser = true\<close> exactly when some subscription row with that
  \<^verbatim>\<open>referenceId\<close> has status \<^verbatim>\<open>'active'\<close>. \<^verbatim>\<open>getComprehensiveUserData\<close> and
  \<^verbatim>\<open>getLightweightUserAuth\<close> set \<^verbatim>\<open>isProUser\<close> by the same equivalence whenever they compute
  their result from the tables (a signed-in user whose row exists, no unexpired cache entry).
  While an unexpired entry is cached they return what was stored:
  \<^verbatim>\<open>getComprehensiveUserData\<close> the cached data, \<^verbatim>\<open>getLightweightUserAuth\<close> its own cached
  entry or else the \<^verbatim>\<open>isProUser\<close> of the cached full data, whatever the rows say now.
\<close>

theorem pro_status_from_active_subscription:
  "(ps_isProUser (getComprehensiveProStatus (Inr db) userId) \<longleftrightarrow>
      (\<exists>s \<in> set (subscriptions db). s_referenceId s = userId \<and> s_status s = Some ''active''))
   \<and> (getSession env = Inr session \<longrightarrow> session_user_id session = Some userId \<longrightarrow>
        readDb env = Inr db \<longrightarrow> (\<exists>u \<in> set (users db). u_id u = userId) \<longrightarrow>
        fst (getCachedUserData c (now1 env) userId) = None \<longrightarrow>
        (\<exists>d. fst (getComprehensiveUserData env c) = Some d \<and>
           (isProUser d \<longleftrightarrow>
              (\<exists>s \<in> set (subscriptions db).
                  s_referenceId s = userId \<and> s_status s = Some ''active''))))
   \<and> (getSession env = Inr session \<longrightarrow> session_user_id session = Some userId \<longrightarrow>
        readDb env = Inr db \<longrightarrow> (\<exists>u \<in> set (users db). u_id u = userId) \<longrightarrow>
        fst (getCachedLightweightAuth c (now1 env) userId) = None \<longrightarrow>
        fst (getCachedUserData (snd (getCachedLightweightAuth c (now1 env) userId))
               (now2 env) userId) = None \<longrightarrow>
        (\<exists>d. fst (getLightweightUserAuth env c) = Some d \<and>
           (lw_isProUser d \<longleftrightarrow>
              (\<exists>s \<in> set (subscriptions db).
                  s_referenceId s = userId \<and> s_status s = Some ''active''))))
   \<and> (getSession env = Inr session \<longrightarrow> session_user_id session = Some userId \<longrightarrow>
        fst (getCachedUserData c (now1 env) userId) = Some cached \<longrightarrow>
        getComprehensiveUserData env c = (Some cached, c))
   \<and> (getSession env = Inr session \<longrightarrow> session_user_id session = Some userId \<longrightarrow>
        fst (getCachedLightweightAuth c (now1 env) userId) = Some light \<longrightarrow>
        getLightweightUserAuth env c = (Some light, c))
   \<and> (getSession env = Inr session \<longrightarrow> session_user_id session = Some userId \<longrightarrow>
        fst (getCachedLightweightAuth c (now1 env) userId) = None \<longrightarrow>
        fst (getCachedUserData (snd (getCachedLightweightAuth c (now1 env) userId))
               (now2 env) userId) = Some cached \<longrightarrow>
        fst (getLightweightUserAuth env c) =
          Some \<lparr>lw_userId = cud_id cached, lw_email = cud_email cached,
                lw_isProUser = isProUser cached\<rparr>)"
proof (intro conjI)
  note t = pro_status_computed [of db userId env session c]
  show "ps_isProUser (getComprehensiveProStatus (Inr db) userId) \<longleftrightarrow>
      (\<exists>s \<in> set (subscriptions db). s_referenceId s = userId \<and> s_status s = Some ''active'')"
    using t by (elim conjE)
  show "getSession env = Inr session \<longrightarrow> session_user_id session = Some userId \<longrightarrow>
        readDb env = Inr db \<longrightarrow> (\<exists>u \<in> set (users db). u_id u = userId) \<longrightarrow>
        fst (getCachedUserData c (now1 env) userId) = None \<longrightarrow>
        (\<exists>d. fst (getComprehensiveUserData env c) = Some d \<and>
           (isProUser d \<longleftrightarrow>
              (\<exists>s \<in> set (subscriptions db).
                  s_referenceId s = userId \<and> s_status s = Some ''active'')))"
    using t by (elim conjE)
  show "getSession env = Inr session \<longrightarrow> session_user_id session = Some userId \<longrightarrow>
        readDb env = Inr db \<longrightarrow> (\<exists>u \<in> set (users db). u_id u = userId) \<longrightarrow>
        fst (getCachedLightweightAuth c (now1 env) userId) = None \<longrightarrow>
        fst (getCachedUserData (snd (getCachedLightweightAuth c (now1 env) userId))
               (now2 env) userId) = None \<longrightarrow>
        (\<exists>d. fst (getLightweightUserAuth env c) = Some d \<and>
           (lw_isProUser d \<longleftrightarrow>
              (\<exists>s \<in> set (subscriptions db).
                  s_referenceId s = userId \<and> s_status s = Some ''active'')))"
    using t by (elim conjE)
next
  show "getSession env = Inr session \<longrightarrow> session_user_id session = Some userId \<longrightarrow>
        fst (getCachedUserData c (now1 env) userId) = Some cached \<longrightarrow>
        getComprehensiveUserData env c = (Some cached, c)"
  proof (intro impI)
    assume "getSession env = Inr session" "session_user_id session = Some userId"
      "fst (getCachedUserData c (now1 env) userId) = Some cached"
    moreover from this(3) have "getCachedUserData c (now1 env) userId = (Some cached, c)"
      by (auto simp add: getCachedUserData_def split: option.splits if_splits)
    ultimately show "getComprehensiveUserData env c = (Some cached, c)"
      by (simp add: getComprehensiveUserData_def)
  qed
next
  show "getSession env = Inr session \<longrightarrow> session_user_id session = Some userId \<longrightarrow>
        fst (getCachedLightweightAuth c (now1 env) userId) = Some light \<longrightarrow>
        getLightweightUserAuth env c = (Some light, c)"
  proof (intro impI)
    assume "getSession env = Inr session" "session_user_id session = Some userId"
      "fst (getCachedLightweightAuth c (now1 env) userId) = Some light"
    moreover from this(3) have "getCachedLightweightAuth c (now1 env) userId = (Some light, c)"
      by (auto simp add: getCachedLightweightAuth_def split: option.splits if_splits)
    ultimately show "getLightweightUserAuth env c = (Some light, c)"
      by (simp add: getLightweightUserAuth_def)
  qed
next
  show "getSession env = Inr session \<longrightarrow> session_user_id session = Some userId \<longrightarrow>
        fst (getCachedLightweightAuth c (now1 env) userId) = None \<longrightarrow>
        fst (getCachedUserData (snd (getCachedLightweightAuth c (now1 env) userId))
               (now2 env) userId) = Some cached \<longrightarrow>
        fst (getLightweightUserAuth env c) =
          Some \<lparr>lw_userId = cud_id cached, lw_email = cud_email cached,
                lw_isProUser = isProUser cached\<rparr>"
  proof (intro impI)
    assume a: "getSession env = Inr session" "session_user_id session = Some userId"
      "fst (getCachedLightweightAuth c (now1 env) userId) = None"
      "fst (getCachedUserData (snd (getCachedLightweightAuth c (now1 env) userId))
                 (now2 env) userId) = Some cached"
    obtain c1 where c1: "getCachedLightweightAuth c (now1 env) userId = (None, c1)"
      using a(3) by (cases "getCachedLightweightAuth c (now1 env) userId") auto
    obtain c2 where c2: "getCachedUserData c1 (now2 env) userId = (Some cached, c2)"
      using a(4) c1 by (cases "getCachedUserData c1 (now2 env) userId") auto
    show "fst (getLightweightUserAuth env c) =
            Some \<lparr>lw_userId = cud_id cached, lw_email = cud_email cached,
                  lw_isProUser = isProUser cached\<rparr>"
      by (simp add: getLightweightUserAuth_def a c1 c2 Let_def)
  qed
qed

theorem pro_status_from_active_subscription_witness:
  "getSession example_env = Inr (Some (Session (Some ''u1'')))
   \<and> session_user_id (Some (Session (Some ''u1''))) = Some ''u1''
   \<and> readDb example_env = Inr example_db
   \<and> (\<exists>u \<in> set (users example_db). u_id u = ''u1'')
   \<and> fst (getCachedUserData empty_caches (now1 example_env) ''u1'') = None
   \<and> fst (getCachedLightweightAuth empty_caches (now1 example_env) ''u1'') = None
   \<and> fst (getCachedUserData (snd (getCachedLightweightAuth empty_caches (now1 example_env) ''u1''))
            (now2 example_env) ''u1'') = None
   \<and> ps_isProUser (getComprehensiveProStatus (Inr example_db) ''u1'')
   \<and> (\<exists>d. fst (getComprehensiveUserData example_env empty_caches) = Some d \<and> isProUser d)
   \<and> (\<exists>d. fst (getLightweightUserAuth example_env empty_caches) = Some d \<and> lw_isProUser d)
   \<and> getSession stale_env = Inr (Some (Session (Some ''u1'')))
   \<and> fst (getCachedUserData (setCachedUserData empty_caches 6002 ''u1'' example_data)
            (now1 stale_env) ''u1'') = Some example_data
   \<and> getComprehensiveUserData stale_env (setCachedUserData empty_caches 6002 ''u1'' example_data) =
        (Some example_data, setCachedUserData empty_caches 6002 ''u1'' example_data)
   \<and> fst (getCachedLightweightAuth (setCachedUserData empty_caches 6002 ''u1'' example_data)
            (now1 stale_env) ''u1'') = None
   \<and> fst (getCachedUserData
            (snd (getCachedLightweightAuth (setCachedUserData empty_caches 6002 ''u1'' example_data)
                    (now1 stale_env) ''u1''))
            (now2 stale_env) ''u1'') = Some example_data
   \<and> fst (getLightweightUserAuth stale_env
            (setCachedUserData empty_caches 6002 ''u1'' example_data)) = Some example_lightweight
   \<and> fst (getCachedLightweightAuth
            (setCachedLightweightAuth empty_caches 6002 ''u1'' example_lightweight)
            (now1 stale_env) ''u1'') = Some example_lightweight
   \<and> getLightweightUserAuth stale_env
        (setCachedLightweightAuth empty_caches 6002 ''u1'' example_lightweight) =
        (Some example_lightweight,
         setCachedLightweightAuth empty_caches 6002 ''u1'' example_lightweight)"
proof -
  let ?s = "Some (Session (Some ''u1''))"
  let ?C = "setCachedUserData empty_caches 6002 ''u1'' example_data"
  let ?L = "setCachedLightweightAuth empty_caches 6002 ''u1'' example_lightweight"
  note t = pro_status_from_active_subscription
    [of example_db "''u1''" example_env ?s empty_caches example_data example_lightweight]
  have h: "getSession example_env = Inr ?s"
    "session_user_id ?s = Some ''u1''"
    "readDb example_env = Inr example_db"
    "\<exists>u \<in> set (users example_db). u_id u = ''u1''"
    "fst (getCachedUserData empty_caches (now1 example_env) ''u1'') = None"
    "fst (getCachedLightweightAuth empty_caches (now1 example_env) ''u1'') = None"
    "fst (getCachedUserData (snd (getCachedLightweightAuth empty_caches (now1 example_env) ''u1''))
            (now2 example_env) ''u1'') = None"
    by (simp_all add: example_defs session_user_id_def getCachedUserData_def
        getCachedLightweightAuth_def)
  have act: "\<exists>s \<in> set (subscriptions example_db).
      s_referenceId s = ''u1'' \<and> s_status s = Some ''active''"
    by (simp add: example_defs)
  from t h act have fresh:
    "ps_isProUser (getComprehensiveProStatus (Inr example_db) ''u1'')"
    "\<exists>d. fst (getComprehensiveUserData example_env empty_caches) = Some d \<and> isProUser d"
    "\<exists>d. fst (getLightweightUserAuth example_env empty_caches) = Some d \<and> lw_isProUser d"
    by simp_all
  have g: "getSession stale_env = Inr ?s"
    "fst (getCachedUserData ?C (now1 stale_env) ''u1'') = Some example_data"
    "fst (getCachedLightweightAuth ?C (now1 stale_env) ''u1'') = None"
    "fst (getCachedUserData (snd (getCachedLightweightAuth ?C (now1 stale_env) ''u1''))
            (now2 stale_env) ''u1'') = Some example_data"
    "fst (getCachedLightweightAuth ?L (now1 stale_env) ''u1'') = Some example_lightweight"
    by (simp_all add: stale_env_def example_env_def getCachedUserData_def
        getCachedLightweightAuth_def setCachedUserData_def setCachedLightweightAuth_def
        empty_caches_def CACHE_TTL_MS_def LIGHTWEIGHT_CACHE_TTL_MS_def)
  have lw: "\<lparr>lw_userId = cud_id example_data, lw_email = cud_email example_data,
            lw_isProUser = isProUser example_data\<rparr> = example_lightweight"
    by (simp add: example_data_def example_lightweight_def)
  from pro_status_from_active_subscription
    [of example_db "''u1''" stale_env ?s ?C example_data example_lightweight] g h(2)
  have hit1: "getComprehensiveUserData stale_env ?C = (Some example_data, ?C)"
    and hit2: "fst (getLightweightUserAuth stale_env ?C) = Some example_lightweight"
    by (simp_all add: lw)
  from pro_status_from_active_subscription
    [of example_db "''u1''" stale_env ?s ?L example_data example_lightweight] g h(2)
  have hit3: "getLightweightUserAuth stale_env ?L = (Some example_lightweight, ?L)"
    by simp
  show ?thesis
    by (intro conjI) (fact h fresh g hit1 hit2 hit3)+
qed


section \<open>Facts about the Reddit search tool\<close>

lemma promise_all_Inr: "promise_all (map (\<lambda>x. Inr (f x)) xs) = Inr (map f xs)"
  by (induction xs) simp_all

lemma search_query_fst: "fst (search_query tvly ms n iq) = Inr (entry_of tvly ms iq)"
  by (simp add: search_query_def entry_of_def Let_def split: sum.splits)

lemma reddit_execute_eq:
  "reddit_execute tvly inp =
     Inr (map (entry_of tvly (maxResults inp)) (enumerate 0 (queries inp)))"
  by (simp add: reddit_execute_def search_query_fst promise_all_Inr)

lemma se_query_entry_of: "se_query (entry_of tvly ms iq) = snd iq"
  by (simp add: entry_of_def split: sum.splits)

text \<open>
  Claim C5. For every list of queries (and every behaviour of the search client)
  \<^verbatim>\<open>execute\<close> resolves, never rejects, and its \<^verbatim>\<open>searches\<close> array has exactly one entry
  per query, in the order of the queries. The entry of a query depends on the outcome of
  that query's own search call only: when the call throws, the entry is the query with an
  empty result list; when it returns, the entry holds the processed results.
\<close>

theorem reddit_execute_entries:
  "\<exists>searches. reddit_execute tvly inp = Inr searches
     \<and> length searches = length (queries inp)
     \<and> map se_query searches = queries inp
     \<and> (\<forall>i < length (queries inp).
           (\<forall>e. tvly i (queries inp ! i) (currentMaxResults (maxResults inp) i) = Inl e \<longrightarrow>
                searches ! i = \<lparr>se_query = queries inp ! i, se_results = []\<rparr>)
         \<and> (\<forall>results. tvly i (queries inp ! i) (currentMaxResults (maxResults inp) i) = Inr results \<longrightarrow>
                searches ! i =
                  \<lparr>se_query = queries inp ! i, se_results = map process_result results\<rparr>))"
proof -
  let ?searches = "map (entry_of tvly (maxResults inp)) (enumerate 0 (queries inp))"
  have q: "map se_query ?searches = queries inp"
    by (simp add: se_query_entry_of o_def map_snd_enumerate)
  have n: "?searches ! i = entry_of tvly (maxResults inp) (i, queries inp ! i)"
    if "i < length (queries inp)" for i
    using that by (simp add: nth_enumerate_eq)
  show ?thesis
  proof (intro exI conjI allI impI)
    show "reddit_execute tvly inp = Inr ?searches" by (rule reddit_execute_eq)
    show "length ?searches = length (queries inp)" by simp
    show "map se_query ?searches = queries inp" by (rule q)
  next
    fix i e
    assume i: "i < length (queries inp)"
      and o: "tvly i (queries inp ! i) (currentMaxResults (maxResults inp) i) = Inl e"
    have "?searches ! i = entry_of tvly (maxResults inp) (i, queries inp ! i)"
      using i by (rule n)
    also have "\<dots> = \<lparr>se_query = queries inp ! i, se_results = []\<rparr>"
      using o by (simp add: entry_of_def)
    finally show "?searches ! i = \<lparr>se_query = queries inp ! i, se_results = []\<rparr>" .
  next
    fix i results
    assume i: "i < length (queries inp)"
      and o: "tvly i (queries inp ! i) (currentMaxResults (maxResults inp) i) = Inr results"
    have "?searches ! i = entry_of tvly (maxResults inp) (i, queries inp ! i)"
      using i by (rule n)
    also have "\<dots> = \<lparr>se_query = queries inp ! i, se_results = map process_result results\<rparr>"
      using o by (simp add: entry_of_def)
    finally show "?searches ! i =
        \<lparr>se_query = queries inp ! i, se_results = map process_result results\<rparr>" .
  qed
qed

lemma lower_char_if:
  "lower_char c =
     (if c = CHR ''A'' then CHR ''a'' else (if c = CHR ''B'' then CHR ''b'' else (if
     c = CHR ''C'' then CHR ''c'' else (if c = CHR ''D'' then CHR ''d'' else (if c =
     CHR ''E'' then CHR ''e'' else (if c = CHR ''F'' then CHR ''f'' else (if c = CHR
     ''G'' then CHR ''g'' else (if c = CHR ''H'' then CHR ''h'' else (if c = CHR
     ''I'' then CHR ''i'' else (if c = CHR ''J'' then CHR ''j'' else (if c = CHR
     ''K'' then CHR ''k'' else (if c = CHR ''L'' then CHR ''l'' else (if c = CHR
     ''M'' then CHR ''m'' else (if c = CHR ''N'' then CHR ''n'' else (if c = CHR
     ''O'' then CHR ''o'' else (if c = CHR ''P'' then CHR ''p'' else (if c = CHR
     ''Q'' then CHR ''q'' else (if c = CHR ''R'' then CHR ''r'' else (if c = CHR
     ''S'' then CHR ''s'' else (if c = CHR ''T'' then CHR ''t'' else (if c = CHR
     ''U'' then CHR ''u'' else (if c = CHR ''V'' then CHR ''v'' else (if c = CHR
     ''W'' then CHR ''w'' else (if c = CHR ''X'' then CHR ''x'' else (if c = CHR
     ''Y'' then CHR ''y'' else (if c = CHR ''Z'' then CHR ''z'' else
     c))))))))))))))))))))))))))"
  by (simp add: lower_char_def)

lemma example_process_result:
  "process_result example_tavily_result =
     \<lparr>rr_url = ''https://Reddit.com/r/hol/comments/1/'',
      rr_title = ''https://Reddit.com/r/hol/comments/1/'',
      rr_content = ''A thread'', rr_published_date = None, rr_subreddit = ''hol'',
      rr_isRedditPost = True, rr_score = 9 / 10\<rparr>"
  by (simp add: process_result_def example_tavily_result_def starts_with_ci_def
      toLowerCase_def lower_char_if)

theorem reddit_execute_entries_witness:
  "2 < length (queries example_input)
   \<and> example_tavily 1 (queries example_input ! 1)
         (currentMaxResults (maxResults example_input) 1) = Inl (Error ''request timed out'')
   \<and> example_tavily 2 (queries example_input ! 2)
         (currentMaxResults (maxResults example_input) 2) = Inr [example_tavily_result]
   \<and> (\<exists>searches. reddit_execute example_tavily example_input = Inr searches
         \<and> length searches = 3
         \<and> map se_query searches = [''isabelle'', ''hol'', ''proofs'']
         \<and> searches ! 1 = \<lparr>se_query = ''hol'', se_results = []\<rparr>
         \<and> searches ! 2 =
               \<lparr>se_query = ''proofs'', se_results = [process_result example_tavily_result]\<rparr>)"
proof -
  have h: "2 < length (queries example_input)" "1 < length (queries example_input)"
    "example_tavily 1 (queries example_input ! 1)
         (currentMaxResults (maxResults example_input) 1) = Inl (Error ''request timed out'')"
    "example_tavily 2 (queries example_input ! 2)
         (currentMaxResults (maxResults example_input) 2) = Inr [example_tavily_result]"
    by (simp_all add: example_input_def example_tavily_def)
  from reddit_execute_entries [of example_tavily example_input] obtain searches where
    s: "reddit_execute example_tavily example_input = Inr searches"
      "length searches = length (queries example_input)"
      "map se_query searches = queries example_input"
      "\<forall>i < length (queries example_input).
           (\<forall>e. example_tavily i (queries example_input ! i)
                   (currentMaxResults (maxResults example_input) i) = Inl e \<longrightarrow>
                searches ! i = \<lparr>se_query = queries example_input ! i, se_results = []\<rparr>)
         \<and> (\<forall>results. example_tavily i (queries example_input ! i)
                   (currentMaxResults (maxResults example_input) i) = Inr results \<longrightarrow>
                searches ! i =
                  \<lparr>se_query = queries example_input ! i,
                   se_results = map process_result results\<rparr>)"
    by blast
  from s(4) h have "searches ! 1 = \<lparr>se_query = queries example_input ! 1, se_results = []\<rparr>"
    and "searches ! 2 = \<lparr>se_query = queries example_input ! 2,
                          se_results = map process_result [example_tavily_result]\<rparr>"
    by blast+
  with s h show ?thesis
    by (simp add: example_input_def)
qed

text \<open>
  Claim C7 words the limit as \<^verbatim>\<open>maxResults[index]\<close>, else \<^verbatim>\<open>maxResults[0]\<close>, else 20. The
  code joins the three with \<^verbatim>\<open>||\<close>, which also skips a value that is 0. For two queries
  and \<^verbatim>\<open>maxResults = [0]\<close>, which the schema accepts, the wording gives the first query
  the limit \<^verbatim>\<open>maxResults[0] = 0\<close> and, \<^verbatim>\<open>maxResults[1]\<close> being omitted, the second query
  \<^verbatim>\<open>maxResults[0] = 0\<close> as well; the code gives both the limit 20.
\<close>

theorem reddit_limit_counterexample:
  "inputSchema \<lparr>queries = [''isabelle'', ''hol''], maxResults = Some [0], timeRange = None\<rparr>
   \<and> spec_currentMaxResults (Some [0]) 0 = 0
   \<and> currentMaxResults (Some [0]) 0 = 20
   \<and> opt_index (Some [0 :: rat]) 1 = None
   \<and> spec_currentMaxResults (Some [0]) 1 = 0
   \<and> currentMaxResults (Some [0]) 1 = 20"
  by (simp add: inputSchema_def spec_currentMaxResults_def currentMaxResults_def opt_index_def
      js_index_def or_number_def)

text \<open>
  Claim C7, amended. The input schema rejects, before \<^verbatim>\<open>execute\<close> runs, exactly the
  inputs whose \<^verbatim>\<open>queries\<close> array does not have between 1 and 5 strings of at most 200
  characters each. The result limit of a query is \<^verbatim>\<open>maxResults[index]\<close> when that value
  is present and not 0, else \<^verbatim>\<open>maxResults[0]\<close> when that is present and not 0, else 20;
  without \<^verbatim>\<open>maxResults\<close> it is 20. When no value of \<^verbatim>\<open>maxResults\<close> is 0 this is the
  limit as the claim words it.
\<close>

theorem reddit_limits:
  "(reddit_tool_call tvly inp = Invalid_input \<longleftrightarrow>
      \<not> (1 \<le> length (queries inp) \<and> length (queries inp) \<le> 5
         \<and> (\<forall>q \<in> set (queries inp). length q \<le> 200)))
   \<and> (reddit_tool_call tvly inp \<noteq> Invalid_input \<longrightarrow>
        reddit_tool_call tvly inp = Executed (reddit_execute tvly inp))
   \<and> currentMaxResults None index = 20
   \<and> (opt_index ms index = Some v \<longrightarrow> v \<noteq> 0 \<longrightarrow> currentMaxResults ms index = v)
   \<and> (opt_index ms index = None \<or> opt_index ms index = Some 0 \<longrightarrow>
        opt_index ms 0 = Some v \<longrightarrow> v \<noteq> 0 \<longrightarrow> currentMaxResults ms index = v)
   \<and> (opt_index ms index = None \<or> opt_index ms index = Some 0 \<longrightarrow>
        opt_index ms 0 = None \<or> opt_index ms 0 = Some 0 \<longrightarrow> currentMaxResults ms index = 20)
   \<and> ((\<forall>xs. ms = Some xs \<longrightarrow> 0 \<notin> set xs) \<longrightarrow>
        currentMaxResults ms index = spec_currentMaxResults ms index)"
proof (intro conjI impI)
  show "reddit_tool_call tvly inp = Invalid_input \<longleftrightarrow>
      \<not> (1 \<le> length (queries inp) \<and> length (queries inp) \<le> 5
         \<and> (\<forall>q \<in> set (queries inp). length q \<le> 200))"
    by (auto simp add: reddit_tool_call_def inputSchema_def list_all_iff)
next
  assume "reddit_tool_call tvly inp \<noteq> Invalid_input"
  then show "reddit_tool_call tvly inp = Executed (reddit_execute tvly inp)"
    by (simp add: reddit_tool_call_def split: if_splits)
next
  show "currentMaxResults None index = 20"
    by (simp add: currentMaxResults_def opt_index_def or_number_def)
next
  assume "opt_index ms index = Some v" "v \<noteq> 0"
  then show "currentMaxResults ms index = v"
    by (simp add: currentMaxResults_def or_number_def)
next
  assume "opt_index ms index = None \<or> opt_index ms index = Some 0"
    "opt_index ms 0 = Some v" "v \<noteq> 0"
  then show "currentMaxResults ms index = v"
    by (auto simp add: currentMaxResults_def or_number_def)
next
  assume "opt_index ms index = None \<or> opt_index ms index = Some 0"
    "opt_index ms 0 = None \<or> opt_index ms 0 = Some 0"
  then show "currentMaxResults ms index = 20"
    by (auto simp add: currentMaxResults_def or_number_def)
next
  assume nz: "\<forall>xs. ms = Some xs \<longrightarrow> 0 \<notin> set xs"
  have "v \<noteq> 0" if "opt_index ms i = Some v" for i v
  proof (cases ms)
    case None
    with that show ?thesis by (simp add: opt_index_def)
  next
    case (Some xs)
    with that have "v \<in> set xs"
      by (auto simp add: opt_index_def js_index_def split: if_splits)
    with nz Some show ?thesis by auto
  qed
  then show "currentMaxResults ms index = spec_currentMaxResults ms index"
    by (auto simp add: currentMaxResults_def spec_currentMaxResults_def or_number_def
        split: option.splits)
qed

theorem reddit_limits_witness:
  "reddit_tool_call example_tavily example_input \<noteq> Invalid_input
   \<and> reddit_tool_call example_tavily example_input =
        Executed (reddit_execute example_tavily example_input)
   \<and> reddit_tool_call example_tavily (example_input\<lparr>queries := []\<rparr>) = Invalid_input
   \<and> reddit_tool_call example_tavily (example_input\<lparr>queries := [replicate 201 CHR ''a'']\<rparr>)
        = Invalid_input
   \<and> opt_index (Some [5, 0 :: rat]) 0 = Some 5 \<and> (5 :: rat) \<noteq> 0
   \<and> currentMaxResults (Some [5, 0]) 0 = 5
   \<and> opt_index (Some [5, 0 :: rat]) 1 = Some 0
   \<and> currentMaxResults (Some [5, 0]) 1 = 5
   \<and> opt_index (Some [5, 0 :: rat]) 2 = None
   \<and> currentMaxResults (Some [5, 0]) 2 = 5
   \<and> opt_index (Some [0 :: rat]) 3 = None \<and> opt_index (Some [0 :: rat]) 0 = Some 0
   \<and> currentMaxResults (Some [0]) 3 = 20
   \<and> currentMaxResults (Some [7, 3]) 1 = spec_currentMaxResults (Some [7, 3]) 1"
proof -
  have valid: "1 \<le> length (queries example_input) \<and> length (queries example_input) \<le> 5
         \<and> (\<forall>q \<in> set (queries example_input). length q \<le> 200)"
    by (simp add: example_input_def)
  have a: "reddit_tool_call example_tavily example_input \<noteq> Invalid_input"
    using reddit_limits [of example_tavily example_input 0 None 0] valid by blast
  then have b: "reddit_tool_call example_tavily example_input =
        Executed (reddit_execute example_tavily example_input)"
    using reddit_limits [of example_tavily example_input 0 None 0] by blast
  have c: "reddit_tool_call example_tavily (example_input\<lparr>queries := []\<rparr>) = Invalid_input"
    using reddit_limits [of example_tavily "example_input\<lparr>queries := []\<rparr>" 0 None 0]
    by simp
  have d: "reddit_tool_call example_tavily
      (example_input\<lparr>queries := [replicate 201 CHR ''a'']\<rparr>) = Invalid_input"
    using reddit_limits
      [of example_tavily "example_input\<lparr>queries := [replicate 201 CHR ''a'']\<rparr>" 0 None 0]
    by simp
  have o: "opt_index (Some [5, 0 :: rat]) 0 = Some 5" "opt_index (Some [5, 0 :: rat]) 1 = Some 0"
    "opt_index (Some [5, 0 :: rat]) 2 = None" "opt_index (Some [0 :: rat]) 0 = Some 0"
    "opt_index (Some [0 :: rat]) 3 = None"
    by (simp_all add: opt_index_def js_index_def)
  have e: "currentMaxResults (Some [5, 0]) 0 = 5"
    using reddit_limits [of example_tavily example_input 0 "Some [5, 0]" 5] o by simp
  have f: "currentMaxResults (Some [5, 0]) 1 = 5"
    using reddit_limits [of example_tavily example_input 1 "Some [5, 0]" 5] o by simp
  have g: "currentMaxResults (Some [5, 0]) 2 = 5"
    using reddit_limits [of example_tavily example_input 2 "Some [5, 0]" 5] o by simp
  have h: "currentMaxResults (Some [0]) 3 = 20"
    using reddit_limits [of example_tavily example_input 3 "Some [0]" 0] o by simp
  have i: "currentMaxResults (Some [7, 3]) 1 = spec_currentMaxResults (Some [7, 3]) 1"
    using reddit_limits [of example_tavily example_input 1 "Some [7, 3]" 0] by simp
  from a b c d e f g h i o show ?thesis by simp
qed


section \<open>Facts about the trending movies tool\<close>

lemma showMap_has_iff: "showMap_has m k \<longleftrightarrow> k \<in> fst ` set m"
  by (auto simp add: showMap_has_def list_ex_iff)

lemma showMap_add_ok: "showMap_ok m \<Longrightarrow> showMap_ok (showMap_add m e)"
  by (auto simp add: showMap_ok_def showMap_add_def Let_def showMap_has_iff)

lemma foldl_showMap_add_ok: "showMap_ok m \<Longrightarrow> showMap_ok (foldl showMap_add m xs)"
  by (induction xs arbitrary: m) (simp_all add: showMap_add_ok)

lemma build_showMap_ok: "showMap_ok (build_showMap data)"
proof -
  have "showMap_ok []" by (simp add: showMap_ok_def)
  then show ?thesis by (simp add: build_showMap_def foldl_showMap_add_ok)
qed

lemma foldl_showMap_add_first:
  "(k, s) \<in> set (foldl showMap_add m xs) \<Longrightarrow>
   (k, s) \<in> set m \<or>
   (k \<notin> fst ` set m \<and>
    find (\<lambda>s'. show_id s' = k \<and> has_rating s') (map ep_show xs) = Some s)"
proof (induction xs arbitrary: m)
  case Nil
  then show ?case by simp
next
  case (Cons e xs)
  from Cons.prems have "(k, s) \<in> set (foldl showMap_add (showMap_add m e) xs)" by simp
  from Cons.IH [OF this] consider
    (old) "(k, s) \<in> set (showMap_add m e)"
    | (new) "k \<notin> fst ` set (showMap_add m e)"
      "find (\<lambda>s'. show_id s' = k \<and> has_rating s') (map ep_show xs) = Some s"
    by blast
  then show ?case
  proof cases
    case old
    then show ?thesis
      by (auto simp add: showMap_add_def Let_def showMap_has_iff split: if_splits)
  next
    case new
    then show ?thesis
      by (auto simp add: showMap_add_def Let_def showMap_has_iff split: if_splits)
  qed
qed

lemma build_showMap_first:
  "(k, s) \<in> set (build_showMap data) \<Longrightarrow>
   find (\<lambda>s'. show_id s' = k \<and> has_rating s') (map ep_show data) = Some s"
  using foldl_showMap_add_first [of k s "[]" data] by (simp add: build_showMap_def)

lemma set_top_subset:
  "set (take 20 (sort_by_rating_desc xs)) \<subseteq> set xs"
  using set_take_subset [of 20 "sort_by_rating_desc xs"] by (simp add: sort_by_rating_desc_def)

lemma distinct_ids_top:
  assumes "distinct (map show_id xs)"
  shows "distinct (map show_id (take 20 (sort_by_rating_desc xs)))"
proof -
  from assms have "distinct xs" "inj_on show_id (set xs)"
    by (simp_all add: distinct_map)
  then have "distinct (map show_id (sort_by_rating_desc xs))"
    by (simp add: distinct_map sort_by_rating_desc_def)
  then show ?thesis
    by (simp add: take_map [symmetric] distinct_take)
qed

lemma sorted_desc_top:
  "sorted_wrt (\<lambda>a b. a \<ge> b) (map rating_or_zero (take 20 (sort_by_rating_desc xs)))"
proof -
  have "sorted (map (\<lambda>s. - rating_or_zero s) (sort_by_rating_desc xs))"
    by (simp add: sort_by_rating_desc_def)
  then have "sorted (take 20 (map (\<lambda>s. - rating_or_zero s) (sort_by_rating_desc xs)))"
    by (rule sorted_wrt_take)
  then have "sorted (map (\<lambda>s. - rating_or_zero s) (take 20 (sort_by_rating_desc xs)))"
    by (simp add: take_map)
  then show ?thesis
    by (simp add: sorted_wrt_map)
qed

lemma has_rating_vote:
  "has_rating s \<Longrightarrow> show_rating_average s = Some (rating_or_zero s) \<and> rating_or_zero s \<noteq> 0"
  by (auto simp add: has_rating_def rating_or_zero_def or_number_def split: option.splits)

lemma kept_show:
  assumes "s \<in> set (take 20 (sort_by_rating_desc (map snd (build_showMap data))))"
  shows "has_rating s \<and>
         find (\<lambda>s'. show_id s' = show_id s \<and> has_rating s') (map ep_show data) = Some s"
proof -
  from assms set_top_subset have "s \<in> set (map snd (build_showMap data))" by blast
  then obtain k where ks: "(k, s) \<in> set (build_showMap data)" by auto
  with build_showMap_ok [of data] have k: "k = show_id s" and r: "has_rating s"
    by (auto simp add: showMap_ok_def)
  from build_showMap_first [OF ks] k r show ?thesis by simp
qed

lemma distinct_kept_ids: "distinct (map show_id (map snd (build_showMap data)))"
proof -
  have "\<forall>x \<in> set (build_showMap data). (show_id \<circ> snd) x = fst x"
    using build_showMap_ok [of data] by (simp add: showMap_ok_def)
  then have "map (show_id \<circ> snd) (build_showMap data) = map fst (build_showMap data)"
    by (simp only: map_eq_conv)
  then have "map show_id (map snd (build_showMap data)) = map fst (build_showMap data)"
    by simp
  then show ?thesis using build_showMap_ok [of data] by (simp only: showMap_ok_def)
qed

text \<open>
  Claim C6, amended. The results list built from the schedule has at most 20 entries;
  no two entries have the same show id, and the entry of an id is built from the first show
  of the schedule with that id whose rating average is present and not 0; so every entry's
  \<^verbatim>\<open>vote_average\<close> is the rating average of its show and is not 0; and the entries are in
  non-increasing order of \<^verbatim>\<open>vote_average\<close>. \<^verbatim>\<open>execute\<close> returns this list when the request
  succeeds and its body is the schedule.
\<close>

theorem trending_results_shape:
  "length (trending_results yr data) \<le> 20
   \<and> distinct (map mr_id (trending_results yr data))
   \<and> (\<forall>r \<in> set (trending_results yr data).
        \<exists>s. find (\<lambda>s'. show_id s' = mr_id r \<and> has_rating s') (map ep_show data) = Some s
           \<and> r = movie_of_show yr s
           \<and> show_rating_average s = Some (mr_vote_average r)
           \<and> mr_vote_average r \<noteq> 0)
   \<and> sorted_wrt (\<lambda>a b. a \<ge> b) (map mr_vote_average (trending_results yr data))
   \<and> (resp_ok response \<longrightarrow> resp_json response = Inr data \<longrightarrow>
        trendingMovies_execute yr (Inr response) = Inr (trending_results yr data))"
proof (intro conjI ballI impI)
  let ?top = "take 20 (sort_by_rating_desc (map snd (build_showMap data)))"
  have ids: "map mr_id (trending_results yr data) = map show_id ?top"
    by (simp add: trending_results_def movie_of_show_def)
  have votes: "map mr_vote_average (trending_results yr data) = map rating_or_zero ?top"
    by (simp add: trending_results_def movie_of_show_def)
  show "length (trending_results yr data) \<le> 20"
    by (simp add: trending_results_def)
  show "distinct (map mr_id (trending_results yr data))"
    unfolding ids by (rule distinct_ids_top) (rule distinct_kept_ids)
  show "sorted_wrt (\<lambda>a b. a \<ge> b) (map mr_vote_average (trending_results yr data))"
    unfolding votes by (rule sorted_desc_top)
  fix r
  assume "r \<in> set (trending_results yr data)"
  then obtain s where s: "s \<in> set ?top" and r: "r = movie_of_show yr s"
    by (auto simp add: trending_results_def)
  have id: "mr_id (movie_of_show yr s) = show_id s"
    and vote: "mr_vote_average (movie_of_show yr s) = rating_or_zero s"
    by (simp_all add: movie_of_show_def)
  from kept_show [OF s] has_rating_vote [of s]
  have "find (\<lambda>s'. show_id s' = mr_id r \<and> has_rating s') (map ep_show data) = Some s
           \<and> r = movie_of_show yr s
           \<and> show_rating_average s = Some (mr_vote_average r)
           \<and> mr_vote_average r \<noteq> 0"
    unfolding r id vote by simp
  then show "\<exists>s. find (\<lambda>s'. show_id s' = mr_id r \<and> has_rating s') (map ep_show data) = Some s
           \<and> r = movie_of_show yr s
           \<and> show_rating_average s = Some (mr_vote_average r)
           \<and> mr_vote_average r \<noteq> 0"
    by blast
next
  assume "resp_ok response" "resp_json response = Inr data"
  then show "trendingMovies_execute yr (Inr response) = Inr (trending_results yr data)"
    by (simp add: trendingMovies_execute_def)
qed

lemma example_showMap:
  "build_showMap example_schedule =
     [(2, example_show 2 ''C'' (Some 7)), (1, example_show 1 ''B'' (Some (17 / 2)))]"
  by (simp add: build_showMap_def example_schedule_def showMap_add_def showMap_has_def
      has_rating_def example_show_def)

lemma example_trending:
  "trending_results (take 4) example_schedule =
     [movie_of_show (take 4) (example_show 1 ''B'' (Some (17 / 2))),
      movie_of_show (take 4) (example_show 2 ''C'' (Some 7))]"
  by (simp add: trending_results_def example_showMap sort_by_rating_desc_def
      rating_or_zero_def or_number_def example_show_def)

text \<open>
  Claim C6 says that of the shows with one id the first occurrence is kept. The test that
  guards \<^verbatim>\<open>showMap.set\<close> also asks for a rating, so an occurrence without one is passed
  over and a later occurrence of the same id is kept: in the example schedule show 1 comes
  first without a rating (name A) and again with rating 8.5 (name B), and the entry of id 1
  is built from B.
\<close>

theorem first_occurrence_counterexample:
  "\<not> first_occurrence_kept (take 4) example_schedule
       (trending_results (take 4) example_schedule)"
  unfolding example_trending
  by (simp add: first_occurrence_kept_def example_schedule_def movie_of_show_def
      example_show_def)

theorem trending_results_shape_witness:
  "movie_of_show (take 4) (example_show 1 ''B'' (Some (17 / 2)))
      \<in> set (trending_results (take 4) example_schedule)
   \<and> find (\<lambda>s'. show_id s' = 1 \<and> has_rating s') (map ep_show example_schedule) =
       Some (example_show 1 ''B'' (Some (17 / 2)))
   \<and> mr_vote_average (movie_of_show (take 4) (example_show 1 ''B'' (Some (17 / 2)))) = 17 / 2
   \<and> map mr_vote_average (trending_results (take 4) example_schedule) = [17 / 2, 7]
   \<and> distinct (map mr_id (trending_results (take 4) example_schedule))
   \<and> trendingMovies_execute (take 4)
        (Inr \<lparr>resp_ok = True, resp_json = Inr example_schedule\<rparr>) =
      Inr (trending_results (take 4) example_schedule)"
proof -
  let ?r = "movie_of_show (take 4) (example_show 1 ''B'' (Some (17 / 2)))"
  note t = trending_results_shape
    [of "take 4" example_schedule "\<lparr>resp_ok = True, resp_json = Inr example_schedule\<rparr>"]
  have m: "?r \<in> set (trending_results (take 4) example_schedule)"
    by (simp add: example_trending)
  have i: "mr_id ?r = 1" by (simp add: movie_of_show_def example_show_def)
  from t m have "\<exists>s. find (\<lambda>s'. show_id s' = mr_id ?r \<and> has_rating s')
        (map ep_show example_schedule) = Some s
      \<and> show_rating_average s = Some (mr_vote_average ?r)"
    by blast
  then have ex: "\<exists>s. find (\<lambda>s'. show_id s' = 1 \<and> has_rating s')
        (map ep_show example_schedule) = Some s
      \<and> show_rating_average s = Some (mr_vote_average ?r)"
    unfolding i .
  have f: "find (\<lambda>s'. show_id s' = 1 \<and> has_rating s') (map ep_show example_schedule) =
       Some (example_show 1 ''B'' (Some (17 / 2)))"
    by (simp add: example_schedule_def example_show_def has_rating_def)
  from ex have "show_rating_average (example_show 1 ''B'' (Some (17 / 2))) =
      Some (mr_vote_average ?r)"
    unfolding f by simp
  then have v: "mr_vote_average ?r = 17 / 2"
    by (simp add: example_show_def)
  have e: "trendingMovies_execute (take 4)
        (Inr \<lparr>resp_ok = True, resp_json = Inr example_schedule\<rparr>) =
      Inr (trending_results (take 4) example_schedule)"
    using t by simp
  have d: "distinct (map mr_id (trending_results (take 4) example_schedule))"
    using t by blast
  have vs: "map mr_vote_average (trending_results (take 4) example_schedule) = [17 / 2, 7]"
    by (simp add: example_trending movie_of_show_def rating_or_zero_def or_number_def
        example_show_def)
  from m v e d vs f
  show ?thesis by simp
qed


section \<open>Facts about the student discount\<close>

lemma length_js_split: "length (js_split c s) = Suc (count_list s c)"
  by (induction s) (auto split: list.splits)

lemma js_split_no_sep: "c \<notin> set s \<Longrightarrow> js_split c s = [s]"
  by (induction s) auto

lemma js_split_append:
  "c \<notin> set l \<Longrightarrow> js_split c (l @ c # d) = l # js_split c d"
  by (induction l) auto

lemma js_split_two:
  "c \<notin> set l \<Longrightarrow> c \<notin> set d \<Longrightarrow> js_split c (l @ c # d) = [l, d]"
  by (simp add: js_split_append js_split_no_sep)

lemma lower_char_at:
  "lower_char x = CHR ''@'' \<longleftrightarrow> x = CHR ''@''"
  "CHR ''@'' = lower_char x \<longleftrightarrow> x = CHR ''@''"
  by (auto simp add: lower_char_if)

lemma at_in_toLowerCase: "CHR ''@'' \<in> set (toLowerCase s) \<longleftrightarrow> CHR ''@'' \<in> set s"
  by (induction s) (auto simp add: toLowerCase_def lower_char_at)

lemma count_at_toLowerCase: "count_list (toLowerCase s) CHR ''@'' = count_list s CHR ''@''"
  by (induction s) (simp_all add: toLowerCase_def lower_char_at)

lemma endsWith_suffix: "endsWith s p \<longleftrightarrow> suffix p s"
proof
  assume "endsWith s p"
  then have "take (length s - length p) s @ p = s"
    using append_take_drop_id [of "length s - length p" s] by (simp add: endsWith_def)
  then show "suffix p s" by (metis suffixI)
next
  assume "suffix p s"
  then obtain pre where "s = pre @ p" by (auto simp add: suffix_def)
  then show "endsWith s p" by (simp add: endsWith_def)
qed

lemma ends_with_edu_cc_iff:
  "ends_with_edu_cc k d \<longleftrightarrow>
     (\<exists>pre cc. d = pre @ ''.edu.'' @ cc \<and> length cc = k \<and> (\<forall>c \<in> set cc. is_small_letter c))"
proof
  assume a: "ends_with_edu_cc k d"
  let ?n = "length d - (5 + k)"
  from a have len: "5 + k \<le> length d"
    and mid: "take 5 (drop ?n d) = ''.edu.''"
    and cc: "list_all is_small_letter (drop (length d - k) d)"
    by (simp_all add: ends_with_edu_cc_def)
  have "drop ?n d = take 5 (drop ?n d) @ drop 5 (drop ?n d)"
    by (rule append_take_drop_id [symmetric])
  also have "drop 5 (drop ?n d) = drop (length d - k) d"
    using len by (simp add: add.commute)
  finally have "drop ?n d = ''.edu.'' @ drop (length d - k) d" by (simp only: mid)
  then have "d = take ?n d @ ''.edu.'' @ drop (length d - k) d"
    by (metis append_take_drop_id)
  moreover have "length (drop (length d - k) d) = k" using len by simp
  moreover have "\<forall>c \<in> set (drop (length d - k) d). is_small_letter c"
    using cc by (simp add: list_all_iff)
  ultimately show "\<exists>pre cc. d = pre @ ''.edu.'' @ cc \<and> length cc = k
      \<and> (\<forall>c \<in> set cc. is_small_letter c)"
    by blast
next
  assume "\<exists>pre cc. d = pre @ ''.edu.'' @ cc \<and> length cc = k \<and> (\<forall>c \<in> set cc. is_small_letter c)"
  then obtain pre cc where "d = pre @ ''.edu.'' @ cc" "length cc = k"
    "\<forall>c \<in> set cc. is_small_letter c"
    by blast
  then show "ends_with_edu_cc k d"
    by (simp add: ends_with_edu_cc_def list_all_iff)
qed

lemma edu_country_regex_iff:
  "edu_country_regex d \<longleftrightarrow>
     (\<exists>pre cc. d = pre @ ''.edu.'' @ cc \<and> (length cc = 2 \<or> length cc = 3)
        \<and> (\<forall>c \<in> set cc. is_small_letter c))"
  unfolding edu_country_regex_def ends_with_edu_cc_iff by blast

lemma matches_pattern_iff:
  "matches_pattern domain pattern \<longleftrightarrow>
     suffix (toLowerCase pattern) domain
     \<or> (toLowerCase pattern = ''.edu'' \<and> edu_country_regex domain)"
  by (auto simp add: matches_pattern_def Let_def endsWith_suffix)

lemma isStudentEmail_one_at:
  assumes "CHR ''@'' \<notin> set l" "CHR ''@'' \<notin> set d"
  shows "isStudentEmail (l @ ''@'' @ d) studentDomains \<longleftrightarrow>
         (\<exists>p \<in> set studentDomains. matches_pattern (toLowerCase d) p)"
proof -
  have low: "toLowerCase (l @ ''@'' @ d) = toLowerCase l @ CHR ''@'' # toLowerCase d"
    by (simp add: toLowerCase_def lower_char_at)
  have "js_split CHR ''@'' (toLowerCase (l @ ''@'' @ d)) = [toLowerCase l, toLowerCase d]"
    unfolding low using assms by (simp add: js_split_two at_in_toLowerCase)
  then show ?thesis
    by (cases studentDomains) (simp_all add: isStudentEmail_def Let_def js_index_def list_ex_iff)
qed

lemma lower_char_idem: "lower_char (lower_char c) = lower_char c"
  by (simp add: lower_char_if)

lemma toLowerCase_idem: "toLowerCase (toLowerCase s) = toLowerCase s"
  by (simp add: toLowerCase_def lower_char_idem)

lemma toLowerCase_Nil: "toLowerCase s = [] \<longleftrightarrow> s = []"
  by (simp add: toLowerCase_def)

lemma matches_pattern_lower: "matches_pattern domain (toLowerCase p) = matches_pattern domain p"
  by (simp add: matches_pattern_def toLowerCase_idem)

lemma list_ex_matches_lower:
  "list_ex (matches_pattern domain) (map toLowerCase ds) = list_ex (matches_pattern domain) ds"
  by (simp add: list_ex_iff matches_pattern_lower)

lemma isStudentEmail_lower:
  "isStudentEmail email ds = isStudentEmail (toLowerCase email) (map toLowerCase ds)"
  by (simp add: isStudentEmail_def toLowerCase_idem toLowerCase_Nil list_ex_matches_lower
      Let_def split: option.splits)

text \<open>
  Claim C9. \<^verbatim>\<open>isStudentEmail\<close> is false when the email does not split at \<^verbatim>\<open>@\<close> into exactly
  two parts (that is, unless it has exactly one \<^verbatim>\<open>@\<close>) and when the list of student domains
  is empty. For an email \<open>l@d\<close> with no \<^verbatim>\<open>@\<close> in \<open>l\<close> and \<open>d\<close> it is true exactly when
  some pattern, in small letters, is a suffix of the domain \<open>d\<close> in small letters, or is
  \<^verbatim>\<open>.edu\<close> while the domain in small letters ends with \<^verbatim>\<open>.edu.\<close> and two or three
  letters. Letter case never matters: emails and patterns that agree in small letters get
  the same answer.
\<close>

theorem isStudentEmail_matching:
  "(length (js_split CHR ''@'' email) \<noteq> 2 \<longrightarrow> \<not> isStudentEmail email studentDomains)
   \<and> length (js_split CHR ''@'' email) = Suc (count_list email CHR ''@'')
   \<and> \<not> isStudentEmail email []
   \<and> (CHR ''@'' \<notin> set l \<longrightarrow> CHR ''@'' \<notin> set d \<longrightarrow>
        (isStudentEmail (l @ ''@'' @ d) studentDomains \<longleftrightarrow>
           (\<exists>p \<in> set studentDomains.
               suffix (toLowerCase p) (toLowerCase d)
               \<or> (toLowerCase p = ''.edu''
                  \<and> (\<exists>pre cc. toLowerCase d = pre @ ''.edu.'' @ cc
                        \<and> (length cc = 2 \<or> length cc = 3)
                        \<and> (\<forall>c \<in> set cc. is_small_letter c))))))
   \<and> (toLowerCase email = toLowerCase email' \<longrightarrow>
        map toLowerCase studentDomains = map toLowerCase studentDomains' \<longrightarrow>
        isStudentEmail email studentDomains = isStudentEmail email' studentDomains')"
proof (intro conjI impI)
  assume "length (js_split CHR ''@'' email) \<noteq> 2"
  then have "length (js_split CHR ''@'' (toLowerCase email)) \<noteq> 2"
    by (simp add: length_js_split count_at_toLowerCase)
  then show "\<not> isStudentEmail email studentDomains"
    by (simp add: isStudentEmail_def Let_def)
next
  show "length (js_split CHR ''@'' email) = Suc (count_list email CHR ''@'')"
    by (rule length_js_split)
next
  show "\<not> isStudentEmail email []"
    by (simp add: isStudentEmail_def)
next
  assume "CHR ''@'' \<notin> set l" "CHR ''@'' \<notin> set d"
  then have "isStudentEmail (l @ ''@'' @ d) studentDomains \<longleftrightarrow>
      (\<exists>p \<in> set studentDomains. matches_pattern (toLowerCase d) p)"
    by (rule isStudentEmail_one_at)
  then show "isStudentEmail (l @ ''@'' @ d) studentDomains \<longleftrightarrow>
           (\<exists>p \<in> set studentDomains.
               suffix (toLowerCase p) (toLowerCase d)
               \<or> (toLowerCase p = ''.edu''
                  \<and> (\<exists>pre cc. toLowerCase d = pre @ ''.edu.'' @ cc
                        \<and> (length cc = 2 \<or> length cc = 3)
                        \<and> (\<forall>c \<in> set cc. is_small_letter c))))"
    by (simp only: isStudentEmail_one_at matches_pattern_iff edu_country_regex_iff)
next
  assume "toLowerCase email = toLowerCase email'"
    "map toLowerCase studentDomains = map toLowerCase studentDomains'"
  then show "isStudentEmail email studentDomains = isStudentEmail email' studentDomains'"
    using isStudentEmail_lower [of email studentDomains]
      isStudentEmail_lower [of email' studentDomains']
    by simp
qed

lemma toLowerCase_examples:
  "toLowerCase ''CS.MIT.EDU'' = ''cs.mit.edu''"
  "toLowerCase ''iitb.edu.in'' = ''iitb.edu.in''"
  "toLowerCase ''.edu'' = ''.edu''"
  "toLowerCase ''.EDU'' = ''.edu''"
  "toLowerCase ''Ada@CS.MIT.EDU'' = ''ada@cs.mit.edu''"
  "toLowerCase ''ada@cs.mit.edu'' = ''ada@cs.mit.edu''"
  by (simp_all add: toLowerCase_def lower_char_if)

theorem isStudentEmail_matching_witness:
  "CHR ''@'' \<notin> set ''Ada'' \<and> CHR ''@'' \<notin> set ''CS.MIT.EDU''
   \<and> suffix (toLowerCase ''.edu'') (toLowerCase ''CS.MIT.EDU'')
   \<and> isStudentEmail ''Ada@CS.MIT.EDU'' [''.edu'']
   \<and> CHR ''@'' \<notin> set ''ravi'' \<and> CHR ''@'' \<notin> set ''iitb.edu.in''
   \<and> toLowerCase ''.EDU'' = ''.edu''
   \<and> toLowerCase ''iitb.edu.in'' = ''iitb'' @ ''.edu.'' @ ''in''
   \<and> isStudentEmail ''ravi@iitb.edu.in'' [''.EDU'']
   \<and> length (js_split CHR ''@'' ''a@b@c.edu'') \<noteq> 2
   \<and> \<not> isStudentEmail ''a@b@c.edu'' [''.edu'']
   \<and> toLowerCase ''Ada@CS.MIT.EDU'' = toLowerCase ''ada@cs.mit.edu''
   \<and> map toLowerCase [''.edu''] = map toLowerCase [''.EDU'']
   \<and> isStudentEmail ''Ada@CS.MIT.EDU'' [''.edu''] = isStudentEmail ''ada@cs.mit.edu'' [''.EDU'']"
proof -
  have h1: "CHR ''@'' \<notin> set ''Ada''" "CHR ''@'' \<notin> set ''CS.MIT.EDU''"
    and h2: "CHR ''@'' \<notin> set ''ravi''" "CHR ''@'' \<notin> set ''iitb.edu.in''"
    by simp_all
  have s1: "suffix (toLowerCase ''.edu'') (toLowerCase ''CS.MIT.EDU'')"
    unfolding toLowerCase_examples by (rule suffixI [of _ "''cs.mit''"]) simp
  have "CHR ''@'' \<notin> set ''Ada'' \<longrightarrow> CHR ''@'' \<notin> set ''CS.MIT.EDU'' \<longrightarrow>
        (isStudentEmail (''Ada'' @ ''@'' @ ''CS.MIT.EDU'') [''.edu''] \<longleftrightarrow>
           (\<exists>p \<in> set [''.edu''].
               suffix (toLowerCase p) (toLowerCase ''CS.MIT.EDU'')
               \<or> (toLowerCase p = ''.edu''
                  \<and> (\<exists>pre cc. toLowerCase ''CS.MIT.EDU'' = pre @ ''.edu.'' @ cc
                        \<and> (length cc = 2 \<or> length cc = 3)
                        \<and> (\<forall>c \<in> set cc. is_small_letter c)))))"
    using isStudentEmail_matching
      [of "''x''" "[''.edu'']" "''Ada''" "''CS.MIT.EDU''" "''x''" "[]"]
    by (elim conjE)
  from this [THEN mp, OF h1(1), THEN mp, OF h1(2)] s1
  have "isStudentEmail (''Ada'' @ ''@'' @ ''CS.MIT.EDU'') [''.edu'']"
    by (simp only: list.set bex_simps insert_iff empty_iff) simp
  then have a: "isStudentEmail ''Ada@CS.MIT.EDU'' [''.edu'']" by simp
  have lo: "toLowerCase ''.EDU'' = ''.edu''"
    and cc: "toLowerCase ''iitb.edu.in'' = ''iitb'' @ ''.edu.'' @ ''in''"
    by (simp_all add: toLowerCase_examples)
  have cc2: "length ''in'' = 2 \<or> length ''in'' = 3" "\<forall>c \<in> set ''in''. is_small_letter c"
    by (simp_all add: is_small_letter_def)
  have rhs: "\<exists>p \<in> set [''.EDU''].
               suffix (toLowerCase p) (toLowerCase ''iitb.edu.in'')
               \<or> (toLowerCase p = ''.edu''
                  \<and> (\<exists>pre cc. toLowerCase ''iitb.edu.in'' = pre @ ''.edu.'' @ cc
                        \<and> (length cc = 2 \<or> length cc = 3)
                        \<and> (\<forall>c \<in> set cc. is_small_letter c)))"
  proof (rule bexI [of _ "''.EDU''"], rule disjI2, intro conjI exI)
    show "toLowerCase ''.EDU'' = ''.edu''" by (rule lo)
    show "toLowerCase ''iitb.edu.in'' = ''iitb'' @ ''.edu.'' @ ''in''" by (rule cc)
    show "length ''in'' = 2 \<or> length ''in'' = 3" by (rule cc2)
    show "\<forall>c \<in> set ''in''. is_small_letter c" by (rule cc2)
    show "''.EDU'' \<in> set [''.EDU'']" by simp
  qed
  have "CHR ''@'' \<notin> set ''ravi'' \<longrightarrow> CHR ''@'' \<notin> set ''iitb.edu.in'' \<longrightarrow>
        (isStudentEmail (''ravi'' @ ''@'' @ ''iitb.edu.in'') [''.EDU''] \<longleftrightarrow>
           (\<exists>p \<in> set [''.EDU''].
               suffix (toLowerCase p) (toLowerCase ''iitb.edu.in'')
               \<or> (toLowerCase p = ''.edu''
                  \<and> (\<exists>pre cc. toLowerCase ''iitb.edu.in'' = pre @ ''.edu.'' @ cc
                        \<and> (length cc = 2 \<or> length cc = 3)
                        \<and> (\<forall>c \<in> set cc. is_small_letter c)))))"
    using isStudentEmail_matching
      [of "''x''" "[''.EDU'']" "''ravi''" "''iitb.edu.in''" "''x''" "[]"]
    by (elim conjE)
  from this [THEN mp, OF h2(1), THEN mp, OF h2(2), THEN iffD2, OF rhs]
  have b: "isStudentEmail ''ravi@iitb.edu.in'' [''.EDU'']" by simp
  have n: "length (js_split CHR ''@'' ''a@b@c.edu'') \<noteq> 2"
    by simp
  have "length (js_split CHR ''@'' ''a@b@c.edu'') \<noteq> 2 \<longrightarrow>
      \<not> isStudentEmail ''a@b@c.edu'' [''.edu'']"
    using isStudentEmail_matching [of "''a@b@c.edu''" "[''.edu'']" "''x''" "''x''" "''x''" "[]"]
    by (elim conjE)
  from this [THEN mp, OF n] have c: "\<not> isStudentEmail ''a@b@c.edu'' [''.edu'']" .
  have l1: "toLowerCase ''Ada@CS.MIT.EDU'' = toLowerCase ''ada@cs.mit.edu''"
    and l2: "map toLowerCase [''.edu''] = map toLowerCase [''.EDU'']"
    by (simp_all add: toLowerCase_examples)
  have "toLowerCase ''Ada@CS.MIT.EDU'' = toLowerCase ''ada@cs.mit.edu'' \<longrightarrow>
        map toLowerCase [''.edu''] = map toLowerCase [''.EDU''] \<longrightarrow>
        isStudentEmail ''Ada@CS.MIT.EDU'' [''.edu''] = isStudentEmail ''ada@cs.mit.edu'' [''.EDU'']"
    using isStudentEmail_matching
      [of "''Ada@CS.MIT.EDU''" "[''.edu'']" "''x''" "''x''" "''ada@cs.mit.edu''" "[''.EDU'']"]
    by (elim conjE)
  from this [THEN mp, OF l1, THEN mp, OF l2]
  have d: "isStudentEmail ''Ada@CS.MIT.EDU'' [''.edu''] = isStudentEmail ''ada@cs.mit.edu'' [''.EDU'']" .
  show ?thesis
    by (intro conjI) (fact h1 h2 s1 a lo cc b n c l1 l2 d)+
qed

end
